theory Spec2Isabelle
  imports Main
begin

section \<open>JavaScript values shared by the services\<close>

text \<open>
  A thrown JavaScript error. \<open>message\<close> is \<open>error.message\<close>; \<open>response\<close> is
  \<open>error.response.status\<close> when the error carries an HTTP response (axios attaches one
  to an error raised for a non-2xx answer) and \<open>None\<close> when \<open>error.response\<close> is undefined,
  as it is for an error made with \<open>new Error(...)\<close>.
\<close>

datatype js_error = JsError (message: string) (response: "nat option")

text \<open>Template-literal rendering of numbers, \<open>`${n}`\<close>.\<close>

definition digit_char :: "nat \<Rightarrow> char" where
  "digit_char d = ''0123456789'' ! d"

function string_of_nat :: "nat \<Rightarrow> string" where
  "string_of_nat n =
     (if n < 10 then [digit_char n] else string_of_nat (n div 10) @ [digit_char (n mod 10)])"
  by pat_completeness auto
termination
  by (relation "measure id") auto

declare string_of_nat.simps [simp del]

definition string_of_int :: "int \<Rightarrow> string" where
  "string_of_int i = (if i < 0 then CHR ''-'' # string_of_nat (nat (- i)) else string_of_nat (nat i))"

text \<open>
  \<open>`${maxWaitMs / 1000}`\<close> for an integer number of milliseconds: the quotient with up to
  three decimals, trailing zeros dropped (what JavaScript prints while the value has at
  most 15 significant digits).
\<close>

definition string_of_ms_as_seconds :: "int \<Rightarrow> string" where
  "string_of_ms_as_seconds ms =
     (let a = nat \<bar>ms\<bar>; q = a div 1000; r = a mod 1000;
          frac = (if r = 0 then []
                  else if r mod 100 = 0 then [CHR ''.'', digit_char (r div 100)]
                  else if r mod 10 = 0 then [CHR ''.'', digit_char (r div 100), digit_char (r div 10 mod 10)]
                  else [CHR ''.'', digit_char (r div 100), digit_char (r div 10 mod 10), digit_char (r mod 10)])
      in (if ms < 0 then ''-'' else []) @ string_of_nat q @ frac)"

section \<open>The outside world\<close>

subsection \<open>Beacon RPC traffic\<close>

text \<open>
  The JSON body of a beacon answer, with the fields the service reads (\<open>j_id\<close> is the
  field \<open>id\<close>). A request carries \<open>block_num_or_id\<close> (\<open>get_block\<close>) or nothing
  (\<open>get_info\<close>, whose body is \<open>{}\<close>).
\<close>

record rpc_data =
  j_head_block_num :: int
  j_last_irreversible_block_num :: int
  j_chain_id :: string
  j_block_num :: int
  j_id :: string
  j_timestamp :: string
  j_producer :: string

type_synonym rpc_body = "int option"

subsection \<open>Ledger and persistence traffic\<close>

text \<open>
  \<open>getPotState\<close> returns decimal strings of the contract's unsigned integers; the manager
  reads them with \<open>parseInt\<close>. The record holds the numbers those strings denote.
\<close>

record pot_state =
  potId :: string
  phase :: nat
  startTime :: int
  totalAmount :: string
  tickets :: nat
  playerCount :: nat

datatype ledger_call = GetPotState | StartGame | EmergencyCancel | LockGame | FinishGame string

record tx_receipt =
  txHash :: string
  blockNumber :: int
  winner :: "string option"

datatype js_val = Str string | Num int | Null | IsoTime int

datatype db_call =
    CreateGameRound "(string \<times> js_val) list"
  | UpdateGameRoundByPotId string "(string \<times> js_val) list"
  | CreateEosProof "(string \<times> js_val) list"

datatype log_level = Debug | Info | Warn | Error

subsection \<open>The world record\<close>

text \<open>
  Everything outside the process. \<open>now\<close> is \<open>Date.now()\<close> in milliseconds. Each of
  \<open>net\<close>, \<open>ledger_state\<close>, \<open>ledger_tx\<close> and \<open>db\<close> answers the k-th request of its
  kind: how long the awaited call takes (milliseconds) and what it resolves to or rejects
  with. \<open>http_log\<close> records the HTTP requests sent to beacon endpoints, \<open>ledger_log\<close>
  the calls made on the ledger gateway and \<open>db_log\<close> the calls made on the persistence
  service, oldest first; \<open>logs\<close> is what the game manager's logger received.
\<close>

record world =
  now :: int
  net :: "nat \<Rightarrow> string \<Rightarrow> rpc_body \<Rightarrow> nat \<times> (js_error + rpc_data)"
  http_log :: "(string \<times> rpc_body) list"
  ledger_state :: "nat \<Rightarrow> nat \<times> (js_error + pot_state)"
  ledger_tx :: "nat \<Rightarrow> ledger_call \<Rightarrow> nat \<times> (js_error + tx_receipt)"
  ledger_log :: "ledger_call list"
  db :: "nat \<Rightarrow> db_call \<Rightarrow> nat \<times> js_error option"
  db_log :: "db_call list"
  logs :: "(log_level \<times> string) list"

text \<open>\<open>await axios.post(url, data, ...)\<close>: one HTTP request.\<close>

definition axios_post :: "string \<Rightarrow> rpc_body \<Rightarrow> world \<Rightarrow> (js_error + rpc_data) \<times> world" where
  "axios_post url data w =
     (case net w (length (http_log w)) url data of
        (took, r) \<Rightarrow> (r, w\<lparr>now := now w + int took, http_log := http_log w @ [(url, data)]\<rparr>))"

text \<open>\<open>await new Promise(resolve => setTimeout(resolve, ms))\<close>.\<close>

definition setTimeout :: "int \<Rightarrow> world \<Rightarrow> world" where
  "setTimeout ms w = w\<lparr>now := now w + ms\<rparr>"

section \<open>EosService (src/services/eosService.js)\<close>

text \<open>
  The service's fields. The constructor splits \<open>EOS_RPC_ENDPOINTS\<close> at commas, so
  \<open>rpcEndpoints\<close> has at least one entry, and starts \<open>currentEndpointIndex\<close> at 0;
  \<open>futureBlockOffset\<close> is \<open>parseInt(EOS_FUTURE_BLOCKS || '5')\<close>. The service's logger
  calls return nothing and are left out.
\<close>

record eos_service =
  rpcEndpoints :: "string list"
  currentEndpointIndex :: nat
  futureBlockOffset :: int

record chain_info =
  headBlockNum :: int
  lastIrreversibleBlockNum :: int
  chainId :: string

record block_meta =
  blockNum :: int
  timestamp :: string
  producer :: string

record eos_block = block_meta +
  blockId :: string

record future_block = block_meta +
  blockHash :: string

text \<open>
  \<open>getCurrentEndpoint\<close> reads an array element; out of range JavaScript gives
  \<open>undefined\<close>, which the template literal of \<open>makeRpcCall\<close> renders as the text
  \<open>undefined\<close>.
\<close>

definition getCurrentEndpoint :: "eos_service \<Rightarrow> string" where
  "getCurrentEndpoint s =
     (if currentEndpointIndex s < length (rpcEndpoints s)
      then rpcEndpoints s ! currentEndpointIndex s else ''undefined'')"

definition switchToNextEndpoint :: "eos_service \<Rightarrow> eos_service" where
  "switchToNextEndpoint s =
     s\<lparr>currentEndpointIndex := (currentEndpointIndex s + 1) mod length (rpcEndpoints s)\<rparr>"

text \<open>
  The \<open>throw\<close> after the loop of \<open>makeRpcCall\<close>. With no attempt made \<open>lastError\<close> is
  still undefined and reading \<open>lastError.message\<close> raises a TypeError instead.
\<close>

definition exhausted_error :: "nat \<Rightarrow> js_error option \<Rightarrow> js_error" where
  "exhausted_error maxRetries lastError =
     (case lastError of
        None \<Rightarrow> JsError ''Cannot read properties of undefined (reading 'message')'' None
      | Some e \<Rightarrow>
          JsError (''Failed to connect to any EOS RPC endpoint after '' @ string_of_nat maxRetries
                   @ '' attempts. Last error: '' @ message e) None)"

text \<open>
  The \<open>for\<close> loop of \<open>makeRpcCall\<close>, with its variables \<open>attempt\<close> and \<open>lastError\<close>.
  axios rejects on a timeout, a connection error and every answer outside 2xx; the loop
  treats all of them alike.
\<close>

function makeRpcCall_loop ::
  "string \<Rightarrow> rpc_body \<Rightarrow> nat \<Rightarrow> nat \<Rightarrow> js_error option \<Rightarrow> eos_service \<Rightarrow> world
     \<Rightarrow> (js_error + rpc_data) \<times> eos_service \<times> world" where
  "makeRpcCall_loop path data maxRetries attempt lastError s w =
     (if attempt < maxRetries then
        (case axios_post (getCurrentEndpoint s @ path) data w of
           (Inr d, w') \<Rightarrow> (Inr d, s, w')
         | (Inl e, w') \<Rightarrow>
             makeRpcCall_loop path data maxRetries (attempt + 1) (Some e)
               (if attempt < maxRetries - 1 then switchToNextEndpoint s else s) w')
      else (Inl (exhausted_error maxRetries lastError), s, w))"
  by pat_completeness auto
termination
  by (relation "measure (\<lambda>(path, data, maxRetries, attempt, lastError, s, w). maxRetries - attempt)") auto

declare makeRpcCall_loop.simps [simp del]

definition makeRpcCall ::
  "string \<Rightarrow> rpc_body \<Rightarrow> eos_service \<Rightarrow> world \<Rightarrow> (js_error + rpc_data) \<times> eos_service \<times> world" where
  "makeRpcCall path data s w = makeRpcCall_loop path data (length (rpcEndpoints s)) 0 None s w"

definition getChainInfo ::
  "eos_service \<Rightarrow> world \<Rightarrow> (js_error + chain_info) \<times> eos_service \<times> world" where
  "getChainInfo s w =
     (case makeRpcCall ''/v1/chain/get_info'' None s w of
        (Inr info, s', w') \<Rightarrow>
          (Inr \<lparr>headBlockNum = j_head_block_num info,
                lastIrreversibleBlockNum = j_last_irreversible_block_num info,
                chainId = j_chain_id info\<rparr>, s', w')
      | (Inl e, s', w') \<Rightarrow> (Inl e, s', w'))"

text \<open>\<open>getBlock\<close>: \<open>Inr None\<close> is the returned \<open>null\<close>.\<close>

definition getBlock ::
  "int \<Rightarrow> eos_service \<Rightarrow> world \<Rightarrow> (js_error + eos_block option) \<times> eos_service \<times> world" where
  "getBlock blockNum' s w =
     (case makeRpcCall ''/v1/chain/get_block'' (Some blockNum') s w of
        (Inr block, s', w') \<Rightarrow>
          (Inr (Some \<lparr>blockNum = j_block_num block, timestamp = j_timestamp block,
                      producer = j_producer block, blockId = j_id block\<rparr>), s', w')
      | (Inl e, s', w') \<Rightarrow>
          (if response e = Some 400 then (Inr None, s', w') else (Inl e, s', w')))"

text \<open>Awaited calls never move the clock backwards; the polling loop below terminates by it.\<close>

lemma axios_post_now: "axios_post url data w = (r, w') \<Longrightarrow> now w \<le> now w'"
  by (auto simp: axios_post_def split: prod.splits)

lemma makeRpcCall_loop_now:
  "makeRpcCall_loop path data maxRetries attempt lastError s w = (r, s', w') \<Longrightarrow> now w \<le> now w'"
proof (induction path data maxRetries attempt lastError s w rule: makeRpcCall_loop.induct)
  case (1 path data maxRetries attempt lastError s w)
  show ?case
  proof (cases "attempt < maxRetries")
    case False
    with "1.prems" show ?thesis by (simp add: makeRpcCall_loop.simps)
  next
    case True
    obtain r1 w1 where post: "axios_post (getCurrentEndpoint s @ path) data w = (r1, w1)"
      by (cases "axios_post (getCurrentEndpoint s @ path) data w")
    have le1: "now w \<le> now w1" using post by (rule axios_post_now)
    show ?thesis
    proof (cases r1)
      case (Inr d)
      with True post "1.prems" have "w' = w1" by (simp add: makeRpcCall_loop.simps)
      with le1 show ?thesis by simp
    next
      case (Inl e)
      with True post "1.prems" have
        "makeRpcCall_loop path data maxRetries (attempt + 1) (Some e)
           (if attempt < maxRetries - 1 then switchToNextEndpoint s else s) w1 = (r, s', w')"
        by (simp add: makeRpcCall_loop.simps)
      with "1.IH" [OF True post [symmetric] Inl] have "now w1 \<le> now w'" by simp
      with le1 show ?thesis by simp
    qed
  qed
qed

lemma getBlock_now: "getBlock n s w = (r, s', w') \<Longrightarrow> now w \<le> now w'"
  by (auto simp: getBlock_def makeRpcCall_def split: prod.splits sum.splits if_splits
           dest: makeRpcCall_loop_now)

text \<open>
  The \<open>while\<close> loop of \<open>waitForBlock\<close>; \<open>startTime'\<close> is the \<open>Date.now()\<close> taken before
  the loop.
\<close>

definition pollIntervalMs :: int where
  "pollIntervalMs = 500"

definition timeout_error :: "int \<Rightarrow> int \<Rightarrow> js_error" where
  "timeout_error targetBlockNum maxWaitMs =
     JsError (''Timeout waiting for EOS block '' @ string_of_int targetBlockNum @ '' after ''
              @ string_of_ms_as_seconds maxWaitMs @ '' seconds'') None"

function waitForBlock_loop ::
  "int \<Rightarrow> int \<Rightarrow> int \<Rightarrow> eos_service \<Rightarrow> world \<Rightarrow> (js_error + eos_block) \<times> eos_service \<times> world" where
  "waitForBlock_loop targetBlockNum maxWaitMs startTime' s w =
     (if now w - startTime' < maxWaitMs then
        (case getBlock targetBlockNum s w of
           (Inr (Some block), s', w') \<Rightarrow> (Inr block, s', w')
         | (Inr None, s', w') \<Rightarrow>
             waitForBlock_loop targetBlockNum maxWaitMs startTime' s' (setTimeout pollIntervalMs w')
         | (Inl e, s', w') \<Rightarrow> (Inl e, s', w'))
      else (Inl (timeout_error targetBlockNum maxWaitMs), s, w))"
  by pat_completeness auto
termination
proof (relation "measure (\<lambda>(targetBlockNum, maxWaitMs, startTime', s, w). nat (startTime' + maxWaitMs - now w))")
  show "wf (measure (\<lambda>(targetBlockNum, maxWaitMs, startTime', s, w). nat (startTime' + maxWaitMs - now w)))"
    by simp
next
  fix targetBlockNum maxWaitMs startTime' :: int and s :: eos_service and w :: world
    and x :: "js_error + eos_block option" and y :: "eos_service \<times> world"
    and s' :: eos_service and w' :: world and r :: "eos_block option"
  assume live: "now w - startTime' < maxWaitMs"
    and call: "(x, y) = getBlock targetBlockNum s w" "(s', w') = y" "x = Inr r" "r = None"
  from call have "getBlock targetBlockNum s w = (Inr None, s', w')" by simp
  then have "now w \<le> now w'" by (rule getBlock_now)
  with live show "((targetBlockNum, maxWaitMs, startTime', s', setTimeout pollIntervalMs w'),
      (targetBlockNum, maxWaitMs, startTime', s, w))
    \<in> measure (\<lambda>(targetBlockNum, maxWaitMs, startTime', s, w). nat (startTime' + maxWaitMs - now w))"
    by (simp add: setTimeout_def pollIntervalMs_def)
qed

declare waitForBlock_loop.simps [simp del]

definition waitForBlock ::
  "int \<Rightarrow> int \<Rightarrow> eos_service \<Rightarrow> world \<Rightarrow> (js_error + eos_block) \<times> eos_service \<times> world" where
  "waitForBlock targetBlockNum maxWaitMs s w = waitForBlock_loop targetBlockNum maxWaitMs (now w) s w"

text \<open>
  \<open>getFutureBlockHash(blocksInFuture = null)\<close>: \<open>None\<close> is \<open>null\<close>; a number is falsy
  exactly when it is 0. \<open>waitForBlock\<close> is called with its default \<open>maxWaitMs\<close>.
\<close>

definition defaultMaxWaitMs :: int where
  "defaultMaxWaitMs = 300000"

definition startsWith0x :: "string \<Rightarrow> bool" where
  "startsWith0x str = (take 2 str = ''0x'')"

definition getFutureBlockHash ::
  "int option \<Rightarrow> eos_service \<Rightarrow> world \<Rightarrow> (js_error + future_block) \<times> eos_service \<times> world" where
  "getFutureBlockHash blocksInFuture s w =
     (let offset = (case blocksInFuture of
                      Some n \<Rightarrow> if n \<noteq> 0 then n else futureBlockOffset s
                    | None \<Rightarrow> futureBlockOffset s)
      in case getChainInfo s w of
           (Inl e, s1, w1) \<Rightarrow> (Inl e, s1, w1)
         | (Inr chainInfo, s1, w1) \<Rightarrow>
             (let targetBlockNum = lastIrreversibleBlockNum chainInfo + offset
              in case waitForBlock targetBlockNum defaultMaxWaitMs s1 w1 of
                   (Inl e, s2, w2) \<Rightarrow> (Inl e, s2, w2)
                 | (Inr block, s2, w2) \<Rightarrow>
                     (let blockHash' = (if startsWith0x (blockId block) then blockId block
                                        else ''0x'' @ blockId block)
                      in (Inr \<lparr>blockNum = blockNum block, timestamp = timestamp block,
                               producer = producer block, blockHash = blockHash'\<rparr>, s2, w2))))"


section \<open>GameManager (src/services/gameManager.js)\<close>

subsection \<open>Collaborators\<close>

text \<open>\<open>logger.debug/info/warn/error(message, ...)\<close>: the message is kept, the metadata is not.\<close>

definition logger :: "log_level \<Rightarrow> string \<Rightarrow> world \<Rightarrow> world" where
  "logger level msg w = w\<lparr>logs := logs w @ [(level, msg)]\<rparr>"

text \<open>
  The ledger gateway. \<open>contract_getPotState\<close> is \<open>await contractService.getPotState()\<close>;
  \<open>contract_send\<close> is an awaited state-changing call together with the wait for its
  receipt (\<open>startGame()\<close> and \<open>emergencyCancel()\<close> followed by \<open>tx.wait()\<close>,
  \<open>contractService.lockGame()\<close>, \<open>contractService.finishGame(hash)\<close>). A rejection is
  whatever the gateway throws.
\<close>

definition contract_getPotState :: "world \<Rightarrow> (js_error + pot_state) \<times> world" where
  "contract_getPotState w =
     (case ledger_state w (length (ledger_log w)) of
        (took, r) \<Rightarrow> (r, w\<lparr>now := now w + int took, ledger_log := ledger_log w @ [GetPotState]\<rparr>))"

definition contract_send :: "ledger_call \<Rightarrow> world \<Rightarrow> (js_error + tx_receipt) \<times> world" where
  "contract_send c w =
     (case ledger_tx w (length (ledger_log w)) c of
        (took, r) \<Rightarrow> (r, w\<lparr>now := now w + int took, ledger_log := ledger_log w @ [c]\<rparr>))"

text \<open>An awaited call of the persistence service; \<open>Some e\<close> is the error it throws.\<close>

definition supabase_call :: "db_call \<Rightarrow> world \<Rightarrow> js_error option \<times> world" where
  "supabase_call c w =
     (case db w (length (db_log w)) c of
        (took, r) \<Rightarrow> (r, w\<lparr>now := now w + int took, db_log := db_log w @ [c]\<rparr>))"

subsection \<open>The manager\<close>

text \<open>
  \<open>isProcessing\<close> is the in-progress guard; \<open>gameTimerDuration\<close> is
  \<open>parseInt(process.env.GAME_TIMER_DURATION || '60')\<close>; \<open>eosService\<close> is the singleton
  beacon client the manager holds.
\<close>

record game_manager =
  isProcessing :: bool
  gameTimerDuration :: int
  eosService :: eos_service

definition phase_IDLE :: nat where "phase_IDLE = 0"
definition phase_BETTING :: nat where "phase_BETTING = 1"
definition phase_LOCKED :: nat where "phase_LOCKED = 2"
definition phase_COMPLETE :: nat where "phase_COMPLETE = 3"

subsection \<open>Persistence helpers\<close>

definition createGameRound :: "string \<Rightarrow> world \<Rightarrow> (js_error + unit) \<times> world" where
  "createGameRound potId' w =
     (let roundData = [(''pot_id'', Str potId'), (''phase'', Str ''BETTING''),
                       (''started_at'', IsoTime (now w)), (''total_amount'', Str ''0''),
                       (''total_tickets'', Num 0), (''player_count'', Num 0)]
      in case supabase_call (CreateGameRound roundData) w of
           (None, w') \<Rightarrow> (Inr (), logger Info ''Game round created in database'' w')
         | (Some e, w') \<Rightarrow> (Inr (), logger Error ''Failed to create game round'' w'))"

definition updateGameRound :: "string \<Rightarrow> (string \<times> js_val) list \<Rightarrow> world \<Rightarrow> (js_error + unit) \<times> world" where
  "updateGameRound potId' updates w =
     (case supabase_call (UpdateGameRoundByPotId potId' updates) w of
        (None, w') \<Rightarrow> (Inr (), logger Debug ''Game round updated in database'' w')
      | (Some e, w') \<Rightarrow> (Inr (), logger Error ''Failed to update game round'' w'))"

definition storeEosProof :: "string \<Rightarrow> future_block \<Rightarrow> world \<Rightarrow> (js_error + unit) \<times> world" where
  "storeEosProof potId' eosBlock w =
     (let proofData = [(''pot_id'', Str potId'), (''eos_block_number'', Num (blockNum eosBlock)),
                       (''eos_block_hash'', Str (blockHash eosBlock)),
                       (''eos_timestamp'', Str (timestamp eosBlock)),
                       (''eos_producer'', Str (producer eosBlock)),
                       (''fetched_at'', IsoTime (now w))]
      in case supabase_call (CreateEosProof proofData) w of
           (None, w') \<Rightarrow> (Inr (), logger Info ''EOS proof stored for verification'' w')
         | (Some e, w') \<Rightarrow> (Inr (), logger Error ''Failed to store EOS proof'' w'))"

subsection \<open>Ledger actions\<close>

definition lockGame :: "pot_state \<Rightarrow> world \<Rightarrow> (js_error + unit) \<times> world" where
  "lockGame state w =
     (case contract_send LockGame (logger Info ''Locking game'' w) of
        (Inl e, w1) \<Rightarrow> (Inl e, logger Error ''Failed to lock game'' w1)
      | (Inr result, w1) \<Rightarrow>
          (let w2 = logger Info ''Game locked successfully'' w1
           in case updateGameRound (potId state)
                     [(''phase'', Str ''LOCKED''), (''locked_at'', IsoTime (now w2)),
                      (''lock_tx_hash'', Str (txHash result))] w2 of
                (Inl e, w3) \<Rightarrow> (Inl e, logger Error ''Failed to lock game'' w3)
              | (Inr u, w3) \<Rightarrow> (Inr (), w3)))"

definition winner_val :: "string option \<Rightarrow> js_val" where
  "winner_val a = (case a of None \<Rightarrow> Null | Some addr \<Rightarrow> Str addr)"

definition finishGame :: "pot_state \<Rightarrow> future_block \<Rightarrow> world \<Rightarrow> (js_error + unit) \<times> world" where
  "finishGame state eosBlock w =
     (case contract_send (FinishGame (blockHash eosBlock)) (logger Info ''Finishing game'' w) of
        (Inl e, w1) \<Rightarrow> (Inl e, logger Error ''Failed to finish game'' w1)
      | (Inr result, w1) \<Rightarrow>
          (let w2 = logger Info ''Game finished successfully'' w1
           in case updateGameRound (potId state)
                     [(''phase'', Str ''COMPLETE''), (''winner_address'', winner_val (winner result)),
                      (''finished_at'', IsoTime (now w2)), (''finish_tx_hash'', Str (txHash result)),
                      (''eos_block_number'', Num (blockNum eosBlock)),
                      (''eos_block_hash'', Str (blockHash eosBlock)),
                      (''eos_timestamp'', Str (timestamp eosBlock))] w2 of
                (Inl e, w3) \<Rightarrow> (Inl e, logger Error ''Failed to finish game'' w3)
              | (Inr u, w3) \<Rightarrow>
                  (case storeEosProof (potId state) eosBlock w3 of
                     (Inl e, w4) \<Rightarrow> (Inl e, logger Error ''Failed to finish game'' w4)
                   | (Inr u', w4) \<Rightarrow> (Inr (), w4))))"

subsection \<open>Phase handlers\<close>

definition handleIdlePhase ::
  "pot_state \<Rightarrow> game_manager \<Rightarrow> world \<Rightarrow> (js_error + unit) \<times> game_manager \<times> world" where
  "handleIdlePhase state m w =
     (case contract_send StartGame (logger Info ''Game in IDLE phase - starting new round'' w) of
        (Inl e, w1) \<Rightarrow> (Inr (), m, logger Error ''Failed to start new game'' w1)
      | (Inr tx, w1) \<Rightarrow>
          (case createGameRound (potId state) (logger Info ''New game started successfully'' w1) of
             (Inl e, w2) \<Rightarrow> (Inr (), m, logger Error ''Failed to start new game'' w2)
           | (Inr u, w2) \<Rightarrow> (Inr (), m, w2)))"

definition handleBettingPhase ::
  "pot_state \<Rightarrow> game_manager \<Rightarrow> world \<Rightarrow> (js_error + unit) \<times> game_manager \<times> world" where
  "handleBettingPhase state m w =
     (let currentTime = now w div 1000;
          expiryTime = startTime state + gameTimerDuration m;
          timeRemaining = expiryTime - currentTime;
          w1 = (if timeRemaining \<in> set [30, 10, 5, 0] then logger Info ''Game timer update'' w else w)
      in if currentTime \<ge> expiryTime then
           (case lockGame state (logger Info ''Game timer expired - locking game'' w1) of
              (Inl e, w2) \<Rightarrow> (Inr (), m, logger Error ''Error handling betting phase'' w2)
            | (Inr u, w2) \<Rightarrow> (Inr (), m, w2))
         else (Inr (), m, w1))"

definition handleLockedPhase ::
  "pot_state \<Rightarrow> game_manager \<Rightarrow> world \<Rightarrow> (js_error + unit) \<times> game_manager \<times> world" where
  "handleLockedPhase state m w =
     (let w1 = logger Info ''Game in LOCKED phase - fetching randomness'' w
      in if tickets state = 0 then
           (case contract_send EmergencyCancel (logger Warn ''No tickets sold - cancelling game'' w1) of
              (Inl e, w2) \<Rightarrow> (Inr (), m, logger Error ''Error handling locked phase'' w2)
            | (Inr tx, w2) \<Rightarrow> (Inr (), m, logger Info ''Game cancelled - no participants'' w2))
         else
           (case getFutureBlockHash None (eosService m) (logger Info ''Fetching EOS randomness'' w1) of
              (Inl e, s', w2) \<Rightarrow>
                (Inr (), m\<lparr>eosService := s'\<rparr>, logger Error ''Error handling locked phase'' w2)
            | (Inr eosBlock, s', w2) \<Rightarrow>
                (case finishGame state eosBlock (logger Info ''EOS randomness fetched'' w2) of
                   (Inl e, w3) \<Rightarrow>
                     (Inr (), m\<lparr>eosService := s'\<rparr>, logger Error ''Error handling locked phase'' w3)
                 | (Inr u, w3) \<Rightarrow> (Inr (), m\<lparr>eosService := s'\<rparr>, w3))))"

definition handleCompletePhase ::
  "pot_state \<Rightarrow> game_manager \<Rightarrow> world \<Rightarrow> (js_error + unit) \<times> game_manager \<times> world" where
  "handleCompletePhase state m w =
     (Inr (), m, logger Info ''Game in COMPLETE phase - waiting for transition to IDLE'' w)"

subsection \<open>The tick\<close>

text \<open>
  \<open>checkAndProcessGameState\<close> in three parts, cut where the source cuts it. \<open>tick_enter\<close>
  is the synchronous prefix: the guard test and \<open>this.isProcessing = true\<close>; \<open>None\<close> is
  the immediate \<open>return\<close>. \<open>tick_try\<close> is the body of the \<open>try\<close> block, from the first
  awaited call on. \<open>tick_settle\<close> adds the \<open>catch\<close> and the \<open>finally\<close>.
\<close>

definition tick_enter :: "game_manager \<Rightarrow> game_manager option" where
  "tick_enter m = (if isProcessing m then None else Some (m\<lparr>isProcessing := True\<rparr>))"

definition tick_try :: "game_manager \<Rightarrow> world \<Rightarrow> (js_error + unit) \<times> game_manager \<times> world" where
  "tick_try m w =
     (case contract_getPotState w of
        (Inl e, w1) \<Rightarrow> (Inl e, m, w1)
      | (Inr state, w1) \<Rightarrow>
          (let currentPhase = phase state;
               w2 = logger Debug ''Game state check'' w1
           in if currentPhase = phase_IDLE then handleIdlePhase state m w2
              else if currentPhase = phase_BETTING then handleBettingPhase state m w2
              else if currentPhase = phase_LOCKED then handleLockedPhase state m w2
              else if currentPhase = phase_COMPLETE then handleCompletePhase state m w2
              else (Inr (), m, logger Error ''Unknown game phase'' w2)))"

definition tick_settle :: "game_manager \<Rightarrow> world \<Rightarrow> (js_error + unit) \<times> game_manager \<times> world" where
  "tick_settle m w =
     (case tick_try m w of
        (Inl e, m', w') \<Rightarrow> (Inr (), m'\<lparr>isProcessing := False\<rparr>, logger Error ''Error checking game state'' w')
      | (Inr u, m', w') \<Rightarrow> (Inr (), m'\<lparr>isProcessing := False\<rparr>, w'))"

definition checkAndProcessGameState ::
  "game_manager \<Rightarrow> world \<Rightarrow> (js_error + unit) \<times> game_manager \<times> world" where
  "checkAndProcessGameState m w =
     (case tick_enter m of
        None \<Rightarrow> (Inr (), m, w)
      | Some m1 \<Rightarrow> tick_settle m1 w)"

subsection \<open>The scheduler\<close>

text \<open>
  \<open>cron.schedule('* * * * * *', ...)\<close> on a single-threaded event loop. \<open>Fire\<close> is the
  timer firing: the synchronous prefix of a new tick runs at once, and a tick that passes
  the guard is in flight. \<open>Settle\<close> is the event loop resuming the tick in flight to its
  end. The state counts the ticks in flight.
\<close>

datatype sched_event = Fire | Settle

fun sched_step :: "nat \<times> game_manager \<times> world \<Rightarrow> sched_event \<Rightarrow> nat \<times> game_manager \<times> world" where
  "sched_step (inflight, m, w) Fire =
     (case tick_enter m of
        None \<Rightarrow> (inflight, m, w)
      | Some m1 \<Rightarrow> (Suc inflight, m1, w))"
| "sched_step (inflight, m, w) Settle =
     (if inflight = 0 then (inflight, m, w)
      else (case tick_settle m w of (r, m', w') \<Rightarrow> (inflight - 1, m', w')))"

definition sched_run :: "sched_event list \<Rightarrow> nat \<times> game_manager \<times> world \<Rightarrow> nat \<times> game_manager \<times> world" where
  "sched_run evs st = foldl sched_step st evs"

section \<open>Vocabulary of the properties\<close>

subsection \<open>Failover\<close>

text \<open>
  \<open>endpoint_at s k\<close> is the endpoint k places after the current one, round-robin;
  \<open>attempt_answer path data s w k\<close> is what the world answers to the k-th attempt of a
  call that starts in service state \<open>s\<close> and world \<open>w\<close>, when that attempt goes to
  \<open>endpoint_at s k\<close>.
\<close>

definition endpoint_at :: "eos_service \<Rightarrow> nat \<Rightarrow> string" where
  "endpoint_at s k = rpcEndpoints s ! ((currentEndpointIndex s + k) mod length (rpcEndpoints s))"

definition attempt_answer :: "string \<Rightarrow> rpc_body \<Rightarrow> eos_service \<Rightarrow> world \<Rightarrow> nat \<Rightarrow> js_error + rpc_data" where
  "attempt_answer path data s w k =
     snd (net w (length (http_log w) + k) (endpoint_at s k @ path) data)"

subsection \<open>Seed format\<close>

text \<open>
  The specification's format of a seed, the regular expression \<open>^0x[0-9a-f]{64}$\<close>.
\<close>

definition is_lower_hex :: "char \<Rightarrow> bool" where
  "is_lower_hex c = (c \<in> set ''0123456789abcdef'')"

definition seed_format :: "string \<Rightarrow> bool" where
  "seed_format str = (take 2 str = ''0x'' \<and> length str = 66 \<and> list_all is_lower_hex (drop 2 str))"

subsection \<open>Frames\<close>

text \<open>
  \<open>beacon_step B w w'\<close>: from \<open>w\<close> to \<open>w'\<close> only the clock moved and beacon requests
  were appended, each with a body in \<open>B\<close>; the ledger, the store and the log are as
  they were.
\<close>

definition beacon_step :: "rpc_body set \<Rightarrow> world \<Rightarrow> world \<Rightarrow> bool" where
  "beacon_step B w w' \<longleftrightarrow>
     (\<exists>t reqs. w' = w\<lparr>now := t, http_log := http_log w @ reqs\<rparr> \<and> snd ` set reqs \<subseteq> B)"

subsection \<open>Ticks and actions\<close>

text \<open>
  \<open>expired st m t\<close>: at clock reading \<open>t\<close> (milliseconds) the current time in seconds
  is at or past the round's start time plus the timer duration. \<open>ledger_outcome c w\<close> is
  how the ledger answers the call \<open>c\<close> issued next in \<open>w\<close>: the error it throws, or
  success. \<open>final_update\<close> and \<open>final_proof\<close> are the two writes of a finished round.
\<close>

definition expired :: "pot_state \<Rightarrow> game_manager \<Rightarrow> int \<Rightarrow> bool" where
  "expired st m t \<longleftrightarrow> startTime st + gameTimerDuration m \<le> t div 1000"

definition ledger_outcome :: "ledger_call \<Rightarrow> world \<Rightarrow> js_error + unit" where
  "ledger_outcome c w =
     (case snd (ledger_tx w (length (ledger_log w)) c) of Inl e \<Rightarrow> Inl e | Inr rc \<Rightarrow> Inr ())"

definition final_update :: "pot_state \<Rightarrow> future_block \<Rightarrow> tx_receipt \<Rightarrow> int \<Rightarrow> db_call" where
  "final_update st eb rc t =
     UpdateGameRoundByPotId (potId st)
       [(''phase'', Str ''COMPLETE''), (''winner_address'', winner_val (winner rc)),
        (''finished_at'', IsoTime t), (''finish_tx_hash'', Str (txHash rc)),
        (''eos_block_number'', Num (blockNum eb)), (''eos_block_hash'', Str (blockHash eb)),
        (''eos_timestamp'', Str (timestamp eb))]"

definition final_proof :: "pot_state \<Rightarrow> future_block \<Rightarrow> int \<Rightarrow> db_call" where
  "final_proof st eb t =
     CreateEosProof
       [(''pot_id'', Str (potId st)), (''eos_block_number'', Num (blockNum eb)),
        (''eos_block_hash'', Str (blockHash eb)), (''eos_timestamp'', Str (timestamp eb)),
        (''eos_producer'', Str (producer eb)), (''fetched_at'', IsoTime t)]"

section \<open>Example inputs\<close>

text \<open>
  A world in which only the beacon endpoints answer, as \<open>answers\<close> says; the default
  service (one endpoint, offset 5); a beacon answer with block identifier \<open>bid\<close>,
  finality pointer 1000 and block number 1005.
\<close>

definition world_beacon :: "(nat \<Rightarrow> string \<Rightarrow> rpc_body \<Rightarrow> nat \<times> (js_error + rpc_data)) \<Rightarrow> world" where
  "world_beacon answers =
     \<lparr>now = 0, net = answers, http_log = [],
      ledger_state = (\<lambda>k. (0, Inl (JsError ''unused'' None))),
      ledger_tx = (\<lambda>k c. (0, Inl (JsError ''unused'' None))), ledger_log = [],
      db = (\<lambda>k c. (0, None)), db_log = [], logs = []\<rparr>"

definition eos_default :: eos_service where
  "eos_default = \<lparr>rpcEndpoints = [''https://eos.antelope.tools''], currentEndpointIndex = 0,
                   futureBlockOffset = 5\<rparr>"

definition beacon_reply :: "string \<Rightarrow> rpc_data" where
  "beacon_reply bid =
     \<lparr>j_head_block_num = 1010, j_last_irreversible_block_num = 1000, j_chain_id = ''aca376f2'',
      j_block_num = 1005, j_id = bid, j_timestamp = ''2025-10-15T00:00:02.500'',
      j_producer = ''eosproducer1''\<rparr>"

definition lower_hex_id :: string where
  "lower_hex_id = ''0123456789abcdef0123456789abcdef0123456789abcdef0123456789abcdef''"

text \<open>
  An endpoint that answers every request with HTTP 400, as it does for a block that has
  not been produced yet; axios rejects with an error that carries the response.
\<close>

definition block_missing_answer :: "js_error + rpc_data" where
  "block_missing_answer = Inl (JsError ''Request failed with status code 400'' (Some 400))"

definition world_block_missing :: world where
  "world_block_missing = world_beacon (\<lambda>k url body. (100, block_missing_answer))"

text \<open>
  Endpoints that answer with a three-character block identifier, and with one of 64
  lowercase hexadecimal digits.
\<close>

definition world_short_id :: world where
  "world_short_id = world_beacon (\<lambda>k url body. (100, Inr (beacon_reply ''abc'')))"

definition world_hex_id :: world where
  "world_hex_id = world_beacon (\<lambda>k url body. (100, Inr (beacon_reply lower_hex_id)))"

text \<open>
  The service configured with \<open>EOS_FUTURE_BLOCKS=0\<close>.
\<close>

definition eos_offset_zero :: eos_service where
  "eos_offset_zero = \<lparr>rpcEndpoints = [''https://eos.antelope.tools''], currentEndpointIndex = 0,
                       futureBlockOffset = 0\<rparr>"

text \<open>
  Three endpoints with the second one current, and a world whose first two requests time
  out.
\<close>

definition eos_three :: eos_service where
  "eos_three = \<lparr>rpcEndpoints = [''https://a.example'', ''https://b.example'', ''https://c.example''],
                 currentEndpointIndex = 1, futureBlockOffset = 5\<rparr>"

definition world_two_down :: world where
  "world_two_down =
     world_beacon (\<lambda>k url body. if k < 2 then (10000, Inl (JsError ''timeout of 10000ms exceeded'' None))
                                 else (100, Inr (beacon_reply lower_hex_id)))"

text \<open>
  A round with identifier 7 that started at second 0, in a given phase with a given
  number of tickets; a world at clock reading \<open>t\<close> whose ledger reports the state
  \<open>st\<close> after 50 ms and confirms every transaction, whose beacon answers and whose store
  accepts every write; the manager as constructed, with the default 60 s timer, and the
  same manager while a tick is in flight.
\<close>

definition receipt_ok :: tx_receipt where
  "receipt_ok = \<lparr>txHash = ''0xfeed'', blockNumber = 42, winner = Some ''0xplayer''\<rparr>"

definition round_state :: "nat \<Rightarrow> nat \<Rightarrow> pot_state" where
  "round_state ph n =
     \<lparr>potId = ''7'', phase = ph, startTime = 0, totalAmount = ''1000'', tickets = n, playerCount = n\<rparr>"

definition state_betting :: pot_state where
  "state_betting = round_state phase_BETTING 3"

definition state_locked :: pot_state where
  "state_locked = round_state phase_LOCKED 3"

definition state_locked_empty :: pot_state where
  "state_locked_empty = round_state phase_LOCKED 0"

definition state_complete :: pot_state where
  "state_complete = round_state phase_COMPLETE 3"

definition world_round :: "pot_state \<Rightarrow> int \<Rightarrow> world" where
  "world_round st t =
     \<lparr>now = t, net = (\<lambda>k url body. (100, Inr (beacon_reply lower_hex_id))), http_log = [],
      ledger_state = (\<lambda>k. (50, Inr st)), ledger_tx = (\<lambda>k c. (200, Inr receipt_ok)), ledger_log = [],
      db = (\<lambda>k c. (20, None)), db_log = [], logs = []\<rparr>"

definition manager_default :: game_manager where
  "manager_default = \<lparr>isProcessing = False, gameTimerDuration = 60, eosService = eos_default\<rparr>"

definition manager_busy :: game_manager where
  "manager_busy = manager_default\<lparr>isProcessing := True\<rparr>"

definition block_found :: future_block where
  "block_found = \<lparr>blockNum = 1005, timestamp = ''2025-10-15T00:00:02.500'',
                   producer = ''eosproducer1'', blockHash = ''0x'' @ lower_hex_id\<rparr>"

section \<open>Properties of the beacon client\<close>

lemmas eval_defs = getFutureBlockHash_def getChainInfo_def getBlock_def makeRpcCall_def
  makeRpcCall_loop.simps axios_post_def getCurrentEndpoint_def switchToNextEndpoint_def
  exhausted_error_def waitForBlock_def waitForBlock_loop.simps defaultMaxWaitMs_def
  startsWith0x_def world_beacon_def eos_default_def beacon_reply_def
  string_of_nat.simps digit_char_def

subsection \<open>What a failed RPC call throws\<close>

text \<open>
  \<open>makeRpcCall\<close> never rethrows the error axios raised: after the last attempt it throws
  a new \<open>Error\<close>, which has no \<open>response\<close>. So the test
  \<open>error.response && error.response.status === 400\<close> in \<open>getBlock\<close> never succeeds.
\<close>

lemma makeRpcCall_loop_error_plain:
  "makeRpcCall_loop path data maxRetries attempt lastError s w = (Inl e, s', w') \<Longrightarrow> response e = None"
proof (induction path data maxRetries attempt lastError s w rule: makeRpcCall_loop.induct)
  case (1 path data maxRetries attempt lastError s w)
  show ?case
  proof (cases "attempt < maxRetries")
    case False
    with "1.prems" have "e = exhausted_error maxRetries lastError"
      by (simp add: makeRpcCall_loop.simps)
    then show ?thesis by (simp add: exhausted_error_def split: option.splits)
  next
    case True
    obtain r1 w1 where post: "axios_post (getCurrentEndpoint s @ path) data w = (r1, w1)"
      by (cases "axios_post (getCurrentEndpoint s @ path) data w")
    show ?thesis
    proof (cases r1)
      case (Inr d)
      with True post "1.prems" show ?thesis by (simp add: makeRpcCall_loop.simps)
    next
      case (Inl e1)
      with True post "1.prems" have
        "makeRpcCall_loop path data maxRetries (attempt + 1) (Some e1)
           (if attempt < maxRetries - 1 then switchToNextEndpoint s else s) w1 = (Inl e, s', w')"
        by (simp add: makeRpcCall_loop.simps)
      with "1.IH" [OF True post [symmetric] Inl] show ?thesis by simp
    qed
  qed
qed

lemma getBlock_never_null: "fst (getBlock n s w) \<noteq> Inr None"
proof -
  obtain r s' w' where call: "makeRpcCall ''/v1/chain/get_block'' (Some n) s w = (r, s', w')"
    by (cases "makeRpcCall ''/v1/chain/get_block'' (Some n) s w")
  show ?thesis
  proof (cases r)
    case (Inr block)
    with call show ?thesis by (simp add: getBlock_def)
  next
    case (Inl e)
    with call have "response e = None"
      by (auto simp: makeRpcCall_def dest: makeRpcCall_loop_error_plain)
    with call Inl show ?thesis by (simp add: getBlock_def)
  qed
qed

text \<open>
  C3. The claim: when the endpoint answers that the block does not exist yet, \<open>getBlock\<close>
  returns \<open>null\<close> and \<open>waitForBlock\<close> keeps polling. The code at that input: with the
  default single endpoint answering HTTP 400, \<open>getBlock\<close> throws the aggregate error of
  \<open>makeRpcCall\<close>, and \<open>waitForBlock\<close> rethrows it after one request instead of polling.
\<close>

theorem getBlock_not_yet_produced_throws:
  "fst (getBlock 1005 eos_default world_block_missing) =
     Inl (JsError ''Failed to connect to any EOS RPC endpoint after 1 attempts. Last error: Request failed with status code 400'' None)
   \<and> fst (waitForBlock 1005 defaultMaxWaitMs eos_default world_block_missing) =
     Inl (JsError ''Failed to connect to any EOS RPC endpoint after 1 attempts. Last error: Request failed with status code 400'' None)
   \<and> http_log (snd (snd (waitForBlock 1005 defaultMaxWaitMs eos_default world_block_missing))) =
     [(''https://eos.antelope.tools/v1/chain/get_block'', Some 1005)]"
  by (simp add: eval_defs world_block_missing_def block_missing_answer_def)

subsection \<open>What the beacon calls change\<close>

lemma beacon_step_refl: "beacon_step B w w"
proof -
  have "w = w\<lparr>now := now w, http_log := http_log w @ []\<rparr> \<and> snd ` set ([] :: (string \<times> rpc_body) list) \<subseteq> B"
    by simp
  then show ?thesis unfolding beacon_step_def by blast
qed

lemma beacon_step_trans:
  assumes "beacon_step B w w1" and "beacon_step B w1 w2"
  shows "beacon_step B w w2"
proof -
  from assms(1) obtain t1 r1 where 1: "w1 = w\<lparr>now := t1, http_log := http_log w @ r1\<rparr>" "snd ` set r1 \<subseteq> B"
    unfolding beacon_step_def by blast
  from assms(2) obtain t2 r2 where 2: "w2 = w1\<lparr>now := t2, http_log := http_log w1 @ r2\<rparr>" "snd ` set r2 \<subseteq> B"
    unfolding beacon_step_def by blast
  have "w2 = w\<lparr>now := t2, http_log := http_log w @ (r1 @ r2)\<rparr> \<and> snd ` set (r1 @ r2) \<subseteq> B"
    using 1 2 by auto
  then show ?thesis unfolding beacon_step_def by blast
qed

lemma beacon_step_mono: "beacon_step B w w' \<Longrightarrow> B \<subseteq> C \<Longrightarrow> beacon_step C w w'"
  unfolding beacon_step_def by blast

lemma beacon_step_fields:
  assumes "beacon_step B w w'"
  shows "net w' = net w" "ledger_log w' = ledger_log w" "db_log w' = db_log w" "logs w' = logs w"
    "ledger_state w' = ledger_state w" "ledger_tx w' = ledger_tx w" "db w' = db w"
  using assms unfolding beacon_step_def by auto

lemma axios_post_step: "axios_post url data w = (r, w') \<Longrightarrow> beacon_step {data} w w'"
proof -
  assume a: "axios_post url data w = (r, w')"
  obtain took r0 where n: "net w (length (http_log w)) url data = (took, r0)"
    by (cases "net w (length (http_log w)) url data")
  with a have "w' = w\<lparr>now := now w + int took, http_log := http_log w @ [(url, data)]\<rparr> \<and>
      snd ` set [(url, data)] \<subseteq> {data}"
    by (simp add: axios_post_def)
  then show ?thesis unfolding beacon_step_def by blast
qed

lemma axios_post_answer:
  "axios_post url data w = (Inr d, w') \<Longrightarrow> \<exists>k. snd (net w k url data) = Inr d"
proof -
  assume "axios_post url data w = (Inr d, w')"
  then have "snd (net w (length (http_log w)) url data) = Inr d"
    by (auto simp: axios_post_def split: prod.splits)
  then show ?thesis ..
qed

lemma makeRpcCall_loop_step:
  "makeRpcCall_loop path data maxRetries attempt lastError s w = (r, s', w') \<Longrightarrow>
     beacon_step {data} w w' \<and> (\<forall>d. r = Inr d \<longrightarrow> (\<exists>k url. snd (net w k url data) = Inr d))"
proof (induction path data maxRetries attempt lastError s w rule: makeRpcCall_loop.induct)
  case (1 path data maxRetries attempt lastError s w)
  show ?case
  proof (cases "attempt < maxRetries")
    case False
    with "1.prems" have "w' = w" "r = Inl (exhausted_error maxRetries lastError)"
      by (simp_all add: makeRpcCall_loop.simps)
    then show ?thesis by (simp add: beacon_step_refl)
  next
    case True
    obtain r1 w1 where post: "axios_post (getCurrentEndpoint s @ path) data w = (r1, w1)"
      by (cases "axios_post (getCurrentEndpoint s @ path) data w")
    have step1: "beacon_step {data} w w1" using post by (rule axios_post_step)
    show ?thesis
    proof (cases r1)
      case (Inr d)
      with True post "1.prems" have res: "w' = w1" "r = Inr d" by (simp_all add: makeRpcCall_loop.simps)
      from post Inr have "\<exists>k. snd (net w k (getCurrentEndpoint s @ path) data) = Inr d"
        by (simp add: axios_post_answer)
      with res step1 show ?thesis by blast
    next
      case (Inl e)
      with True post "1.prems" have
        "makeRpcCall_loop path data maxRetries (attempt + 1) (Some e)
           (if attempt < maxRetries - 1 then switchToNextEndpoint s else s) w1 = (r, s', w')"
        by (simp add: makeRpcCall_loop.simps)
      with "1.IH" [OF True post [symmetric] Inl] have
        ih: "beacon_step {data} w1 w'" "\<forall>d. r = Inr d \<longrightarrow> (\<exists>k url. snd (net w1 k url data) = Inr d)"
        by simp_all
      from step1 ih(1) have "beacon_step {data} w w'" by (rule beacon_step_trans)
      moreover have "net w1 = net w" using step1 by (rule beacon_step_fields)
      ultimately show ?thesis using ih(2) by simp
    qed
  qed
qed

lemma getChainInfo_step:
  "getChainInfo s w = (r, s', w') \<Longrightarrow> beacon_step {None} w w'"
  by (auto simp: getChainInfo_def makeRpcCall_def split: prod.splits sum.splits
           dest: makeRpcCall_loop_step)

lemma getBlock_step:
  assumes "getBlock n s w = (r, s', w')"
  shows "beacon_step {Some n} w w'"
    and "r = Inr (Some block) \<Longrightarrow> \<exists>k url d. snd (net w k url (Some n)) = Inr d \<and> blockId block = j_id d"
proof -
  obtain r0 s0 w0 where call: "makeRpcCall ''/v1/chain/get_block'' (Some n) s w = (r0, s0, w0)"
    by (cases "makeRpcCall ''/v1/chain/get_block'' (Some n) s w")
  then have loop: "makeRpcCall_loop ''/v1/chain/get_block'' (Some n) (length (rpcEndpoints s)) 0 None s w = (r0, s0, w0)"
    by (simp add: makeRpcCall_def)
  from assms call have w': "w' = w0" by (auto simp: getBlock_def split: sum.splits if_splits)
  from makeRpcCall_loop_step [OF loop] w' show "beacon_step {Some n} w w'" by simp
  show "\<exists>k url d. snd (net w k url (Some n)) = Inr d \<and> blockId block = j_id d" if "r = Inr (Some block)"
  proof (cases r0)
    case (Inl e)
    with assms call that show ?thesis by (auto simp: getBlock_def split: if_splits)
  next
    case (Inr d)
    with makeRpcCall_loop_step [OF loop] obtain k url where "snd (net w k url (Some n)) = Inr d" by blast
    moreover from assms call that Inr have "blockId block = j_id d" by (auto simp: getBlock_def)
    ultimately show ?thesis by blast
  qed
qed

lemma setTimeout_step: "beacon_step B w (setTimeout ms w)"
proof -
  have "setTimeout ms w = w\<lparr>now := now w + ms, http_log := http_log w @ []\<rparr> \<and>
      snd ` set ([] :: (string \<times> rpc_body) list) \<subseteq> B"
    by (simp add: setTimeout_def)
  then show ?thesis unfolding beacon_step_def by blast
qed

lemma waitForBlock_loop_step:
  "waitForBlock_loop target maxWaitMs st s w = (r, s', w') \<Longrightarrow>
     beacon_step {Some target} w w' \<and>
     (\<forall>block. r = Inr block \<longrightarrow> (\<exists>k url d. snd (net w k url (Some target)) = Inr d \<and> blockId block = j_id d))"
proof (induction target maxWaitMs st s w rule: waitForBlock_loop.induct)
  case (1 target maxWaitMs st s w)
  show ?case
  proof (cases "now w - st < maxWaitMs")
    case False
    with "1.prems" have "w' = w" "r = Inl (timeout_error target maxWaitMs)"
      by (simp_all add: waitForBlock_loop.simps)
    then show ?thesis by (simp add: beacon_step_refl)
  next
    case True
    obtain r1 s1 w1 where gb: "getBlock target s w = (r1, s1, w1)"
      by (cases "getBlock target s w")
    have "fst (getBlock target s w) \<noteq> Inr None" by (rule getBlock_never_null)
    with gb have notnull: "r1 \<noteq> Inr None" by simp
    from True gb "1.prems" notnull have res: "w' = w1" "r = (case r1 of Inl e \<Rightarrow> Inl e | Inr b \<Rightarrow> Inr (the b))"
      by (auto simp: waitForBlock_loop.simps [of target maxWaitMs st s w] split: sum.splits option.splits)
    have s1: "beacon_step {Some target} w w'" using getBlock_step(1) [OF gb] res by simp
    have "\<exists>k url d. snd (net w k url (Some target)) = Inr d \<and> blockId block = j_id d" if "r = Inr block" for block
    proof -
      from that res notnull have "r1 = Inr (Some block)" by (auto split: sum.splits)
      then show ?thesis by (rule getBlock_step(2) [OF gb])
    qed
    with s1 show ?thesis by blast
  qed
qed

lemma getFutureBlockHash_frame:
  assumes "getFutureBlockHash blocksInFuture s w = (r, s', w')"
  shows "beacon_step UNIV w w'"
proof -
  define offset where "offset = (case blocksInFuture of
      Some n \<Rightarrow> if n \<noteq> 0 then n else futureBlockOffset s | None \<Rightarrow> futureBlockOffset s)"
  obtain r1 s1 w1 where ci: "getChainInfo s w = (r1, s1, w1)" by (cases "getChainInfo s w")
  have step1: "beacon_step UNIV w w1"
    using getChainInfo_step [OF ci] by (rule beacon_step_mono) simp
  show ?thesis
  proof (cases r1)
    case (Inl e)
    with assms ci have "w' = w1" by (simp add: getFutureBlockHash_def)
    with step1 show ?thesis by simp
  next
    case (Inr chainInfo)
    define target where "target = lastIrreversibleBlockNum chainInfo + offset"
    obtain r2 s2 w2 where wb: "waitForBlock target defaultMaxWaitMs s1 w1 = (r2, s2, w2)"
      by (cases "waitForBlock target defaultMaxWaitMs s1 w1")
    then have loop: "waitForBlock_loop target defaultMaxWaitMs (now w1) s1 w1 = (r2, s2, w2)"
      by (simp add: waitForBlock_def)
    from assms ci Inr wb have w': "w' = w2"
      by (auto simp: getFutureBlockHash_def Let_def offset_def target_def split: sum.splits)
    have step2: "beacon_step UNIV w1 w2"
      using waitForBlock_loop_step [OF loop] beacon_step_mono by blast
    from step1 step2 w' show ?thesis using beacon_step_trans by blast
  qed
qed

lemma getFutureBlockHash_answer:
  assumes "getFutureBlockHash blocksInFuture s w = (Inr fb, s', w')"
  shows "\<exists>k url target d. snd (net w k url (Some target)) = Inr d \<and>
           blockHash fb = (if startsWith0x (j_id d) then j_id d else ''0x'' @ j_id d)"
proof -
  define offset where "offset = (case blocksInFuture of
      Some n \<Rightarrow> if n \<noteq> 0 then n else futureBlockOffset s | None \<Rightarrow> futureBlockOffset s)"
  obtain r1 s1 w1 where ci: "getChainInfo s w = (r1, s1, w1)" by (cases "getChainInfo s w")
  have net1: "net w1 = net w"
    using getChainInfo_step [OF ci] by (rule beacon_step_fields)
  from assms ci obtain chainInfo where r1: "r1 = Inr chainInfo"
    by (cases r1) (auto simp: getFutureBlockHash_def)
  define target where "target = lastIrreversibleBlockNum chainInfo + offset"
  obtain r2 s2 w2 where wb: "waitForBlock target defaultMaxWaitMs s1 w1 = (r2, s2, w2)"
    by (cases "waitForBlock target defaultMaxWaitMs s1 w1")
  then have loop: "waitForBlock_loop target defaultMaxWaitMs (now w1) s1 w1 = (r2, s2, w2)"
    by (simp add: waitForBlock_def)
  from assms ci r1 wb obtain block where r2: "r2 = Inr block"
    by (cases r2) (auto simp: getFutureBlockHash_def Let_def offset_def target_def)
  with waitForBlock_loop_step [OF loop] obtain k url d
    where d: "snd (net w1 k url (Some target)) = Inr d" "blockId block = j_id d" by blast
  from d net1 have 1: "snd (net w k url (Some target)) = Inr d" by simp
  from assms ci r1 wb r2
  have "blockHash fb = (if startsWith0x (blockId block) then blockId block else ''0x'' @ blockId block)"
    by (auto simp: getFutureBlockHash_def Let_def offset_def target_def)
  with d(2) 1 show ?thesis by auto
qed

subsection \<open>Seed format\<close>

lemma hex_id_has_no_prefix:
  assumes "list_all is_lower_hex str" shows "\<not> startsWith0x str"
proof
  assume "startsWith0x str"
  then have "take 2 str = ''0x''" by (simp add: startsWith0x_def)
  then obtain rest where "str = CHR ''0'' # CHR ''x'' # rest"
    by (cases str; cases "tl str") auto
  with assms show False by (simp add: is_lower_hex_def)
qed

lemma seed_format_prefixed:
  "seed_format (if startsWith0x bid then bid else ''0x'' @ bid) \<longleftrightarrow>
     seed_format bid \<or> (length bid = 64 \<and> list_all is_lower_hex bid)"
proof (cases "startsWith0x bid")
  case True
  with hex_id_has_no_prefix [of bid] show ?thesis by auto
next
  case False
  then have "\<not> seed_format bid" by (simp add: seed_format_def startsWith0x_def)
  with False show ?thesis by (auto simp: seed_format_def startsWith0x_def)
qed

lemma prefixed_starts: "startsWith0x (if startsWith0x bid then bid else ''0x'' @ bid)"
  by (simp add: startsWith0x_def)

text \<open>
  C4, as amended. The seed of a successful \<open>getFutureBlockHash\<close> is the block identifier
  an endpoint returned, with \<open>0x\<close> prepended when the identifier lacks it and unchanged
  otherwise. It always starts with \<open>0x\<close>; it has the format \<open>^0x[0-9a-f]{64}$\<close>
  exactly when the identifier is 64 lowercase hexadecimal digits, with or without the
  prefix. \<open>getFutureBlockHash\<close> checks no format.
\<close>

theorem future_seed_is_prefixed_block_id:
  assumes "getFutureBlockHash blocksInFuture s w = (Inr fb, s', w')"
  shows "\<exists>k url target d. snd (net w k url (Some target)) = Inr d \<and>
           blockHash fb = (if startsWith0x (j_id d) then j_id d else ''0x'' @ j_id d) \<and>
           startsWith0x (blockHash fb) \<and>
           (seed_format (blockHash fb) \<longleftrightarrow>
              seed_format (j_id d) \<or> (length (j_id d) = 64 \<and> list_all is_lower_hex (j_id d)))"
proof -
  from getFutureBlockHash_answer [OF assms] obtain k url target d
    where d: "snd (net w k url (Some target)) = Inr d"
      "blockHash fb = (if startsWith0x (j_id d) then j_id d else ''0x'' @ j_id d)" by blast
  have "startsWith0x (blockHash fb)" unfolding d(2) by (rule prefixed_starts)
  moreover have "seed_format (blockHash fb) \<longleftrightarrow>
              seed_format (j_id d) \<or> (length (j_id d) = 64 \<and> list_all is_lower_hex (j_id d))"
    unfolding d(2) by (rule seed_format_prefixed)
  ultimately show ?thesis using d by blast
qed

text \<open>
  An instance: the endpoint returns 64 lowercase hexadecimal digits, and the seed is that
  identifier behind \<open>0x\<close>, in the format.
\<close>

theorem future_seed_is_prefixed_block_id_witness:
  "\<exists>fb s' w'. getFutureBlockHash None eos_default world_hex_id = (Inr fb, s', w') \<and>
     (\<exists>k url target d. snd (net world_hex_id k url (Some target)) = Inr d \<and>
           blockHash fb = (if startsWith0x (j_id d) then j_id d else ''0x'' @ j_id d) \<and>
           startsWith0x (blockHash fb) \<and>
           (seed_format (blockHash fb) \<longleftrightarrow>
              seed_format (j_id d) \<or> (length (j_id d) = 64 \<and> list_all is_lower_hex (j_id d))))
     \<and> blockHash fb = ''0x'' @ lower_hex_id \<and> seed_format (blockHash fb)"
proof -
  have res: "fst (getFutureBlockHash None eos_default world_hex_id) =
     Inr \<lparr>blockNum = 1005, timestamp = ''2025-10-15T00:00:02.500'', producer = ''eosproducer1'',
          blockHash = ''0x'' @ lower_hex_id\<rparr>"
    by (simp add: eval_defs world_hex_id_def lower_hex_id_def)
  then obtain fb s' w' where call: "getFutureBlockHash None eos_default world_hex_id = (Inr fb, s', w')"
    and fb: "blockHash fb = ''0x'' @ lower_hex_id"
    by (cases "getFutureBlockHash None eos_default world_hex_id") auto
  have fmt: "seed_format (''0x'' @ lower_hex_id)"
    by (simp add: seed_format_def lower_hex_id_def is_lower_hex_def)
  from future_seed_is_prefixed_block_id [OF call] call fb fmt show ?thesis by auto
qed

text \<open>
  C4 as stated fails: the endpoint returns the identifier \<open>abc\<close>, the call succeeds, and
  the seed \<open>0xabc\<close> is not in the format.
\<close>

theorem future_seed_short_id_counterexample:
  "fst (getFutureBlockHash None eos_default world_short_id) =
     Inr \<lparr>blockNum = 1005, timestamp = ''2025-10-15T00:00:02.500'', producer = ''eosproducer1'',
          blockHash = ''0xabc''\<rparr>
   \<and> \<not> seed_format ''0xabc''"
  by (simp add: eval_defs world_short_id_def seed_format_def)

subsection \<open>The offset fallback\<close>

text \<open>
  C10, as amended. \<open>getFutureBlockHash(0)\<close> behaves as \<open>getFutureBlockHash(null)\<close>:
  same result, same service state, same requests. Every block request of the call asks
  for the finality pointer plus the configured default offset, which is not the finality
  pointer itself when the configured default is not 0.
\<close>

theorem future_offset_zero_is_default:
  "getFutureBlockHash (Some 0) s w = getFutureBlockHash None s w \<and>
   (getChainInfo s w = (Inr ci, s1, w1) \<longrightarrow> getFutureBlockHash (Some 0) s w = (r, s', w') \<longrightarrow>
      (\<exists>reqs. http_log w' = http_log w1 @ reqs \<and>
         (\<forall>q\<in>set reqs. snd q = Some (lastIrreversibleBlockNum ci + futureBlockOffset s) \<and>
            (futureBlockOffset s \<noteq> 0 \<longrightarrow> snd q \<noteq> Some (lastIrreversibleBlockNum ci)))))"
proof (intro conjI impI)
  show "getFutureBlockHash (Some 0) s w = getFutureBlockHash None s w"
    by (simp add: getFutureBlockHash_def)
next
  assume ci: "getChainInfo s w = (Inr ci, s1, w1)"
    and call: "getFutureBlockHash (Some 0) s w = (r, s', w')"
  define target where "target = lastIrreversibleBlockNum ci + futureBlockOffset s"
  obtain r2 s2 w2 where wb: "waitForBlock target defaultMaxWaitMs s1 w1 = (r2, s2, w2)"
    by (cases "waitForBlock target defaultMaxWaitMs s1 w1")
  then have loop: "waitForBlock_loop target defaultMaxWaitMs (now w1) s1 w1 = (r2, s2, w2)"
    by (simp add: waitForBlock_def)
  from call ci wb have "w' = w2"
    by (auto simp: getFutureBlockHash_def Let_def target_def split: sum.splits)
  moreover from waitForBlock_loop_step [OF loop] obtain t reqs
    where "w2 = w1\<lparr>now := t, http_log := http_log w1 @ reqs\<rparr>" "snd ` set reqs \<subseteq> {Some target}"
    unfolding beacon_step_def by blast
  ultimately have "http_log w' = http_log w1 @ reqs" "\<forall>q\<in>set reqs. snd q = Some target"
    by auto
  then show "\<exists>reqs. http_log w' = http_log w1 @ reqs \<and>
         (\<forall>q\<in>set reqs. snd q = Some (lastIrreversibleBlockNum ci + futureBlockOffset s) \<and>
            (futureBlockOffset s \<noteq> 0 \<longrightarrow> snd q \<noteq> Some (lastIrreversibleBlockNum ci)))"
    unfolding target_def by auto
qed

text \<open>
  An instance: default offset 5, finality pointer 1000, block 1005 requested.
\<close>

theorem future_offset_zero_is_default_witness:
  "getFutureBlockHash (Some 0) eos_default world_hex_id = getFutureBlockHash None eos_default world_hex_id \<and>
   (\<exists>ci s1 w1 r s' w'. getChainInfo eos_default world_hex_id = (Inr ci, s1, w1) \<and>
      getFutureBlockHash (Some 0) eos_default world_hex_id = (r, s', w') \<and>
      lastIrreversibleBlockNum ci = 1000 \<and>
      http_log w' = http_log w1 @ [(''https://eos.antelope.tools/v1/chain/get_block'', Some 1005)] \<and>
      (\<exists>reqs. http_log w' = http_log w1 @ reqs \<and>
         (\<forall>q\<in>set reqs. snd q = Some (lastIrreversibleBlockNum ci + futureBlockOffset eos_default) \<and>
            (futureBlockOffset eos_default \<noteq> 0 \<longrightarrow> snd q \<noteq> Some (lastIrreversibleBlockNum ci)))))"
proof -
  obtain r1 s1 w1 where ci: "getChainInfo eos_default world_hex_id = (r1, s1, w1)"
    by (cases "getChainInfo eos_default world_hex_id")
  obtain r s' w' where call: "getFutureBlockHash (Some 0) eos_default world_hex_id = (r, s', w')"
    by (cases "getFutureBlockHash (Some 0) eos_default world_hex_id")
  have "fst (getChainInfo eos_default world_hex_id) =
      Inr \<lparr>headBlockNum = 1010, lastIrreversibleBlockNum = 1000, chainId = ''aca376f2''\<rparr>"
    by (simp add: eval_defs world_hex_id_def)
  with ci obtain ci0 where r1: "r1 = Inr ci0" and lib: "lastIrreversibleBlockNum ci0 = 1000" by auto
  have "http_log (snd (snd (getFutureBlockHash (Some 0) eos_default world_hex_id))) =
      http_log (snd (snd (getChainInfo eos_default world_hex_id)))
        @ [(''https://eos.antelope.tools/v1/chain/get_block'', Some 1005)]"
    by (simp add: eval_defs world_hex_id_def)
  with ci call have logs: "http_log w' = http_log w1 @ [(''https://eos.antelope.tools/v1/chain/get_block'', Some 1005)]"
    by simp
  from future_offset_zero_is_default [of eos_default world_hex_id ci0 s1 w1 r s' w'] ci r1 call
  have eq: "getFutureBlockHash (Some 0) eos_default world_hex_id = getFutureBlockHash None eos_default world_hex_id"
    and reqs: "\<exists>reqs. http_log w' = http_log w1 @ reqs \<and>
         (\<forall>q\<in>set reqs. snd q = Some (lastIrreversibleBlockNum ci0 + futureBlockOffset eos_default) \<and>
            (futureBlockOffset eos_default \<noteq> 0 \<longrightarrow> snd q \<noteq> Some (lastIrreversibleBlockNum ci0)))"
    by simp_all
  from eq ci r1 call lib logs reqs show ?thesis by blast
qed

text \<open>
  C10 as stated fails where the configured default is itself 0
  (\<open>EOS_FUTURE_BLOCKS=0\<close>): \<open>getFutureBlockHash(0)\<close> requests block 1000, the finality
  pointer itself.
\<close>

theorem future_offset_zero_counterexample:
  "http_log (snd (snd (getFutureBlockHash (Some 0) eos_offset_zero world_hex_id))) =
     [(''https://eos.antelope.tools/v1/chain/get_info'', None),
      (''https://eos.antelope.tools/v1/chain/get_block'', Some 1000)]
   \<and> j_last_irreversible_block_num (beacon_reply lower_hex_id) = 1000"
  by (simp add: eval_defs world_hex_id_def eos_offset_zero_def)

subsection \<open>Endpoint failover\<close>

lemma axios_post_effect:
  "axios_post url data w = (r, w') \<Longrightarrow>
     r = snd (net w (length (http_log w)) url data) \<and>
     http_log w' = http_log w @ [(url, data)] \<and> net w' = net w"
  by (auto simp: axios_post_def split: prod.splits)

lemma endpoint_at_0:
  "currentEndpointIndex s < length (rpcEndpoints s) \<Longrightarrow> endpoint_at s 0 = getCurrentEndpoint s"
  by (simp add: endpoint_at_def getCurrentEndpoint_def)

lemma endpoint_at_switch:
  "endpoint_at (switchToNextEndpoint s) k = endpoint_at s (Suc k)"
  by (simp add: endpoint_at_def switchToNextEndpoint_def mod_add_left_eq)

lemma makeRpcCall_loop_char:
  "makeRpcCall_loop path data N a le s w = (r, s', w') \<Longrightarrow> a < N \<Longrightarrow>
   N = length (rpcEndpoints s) \<Longrightarrow> currentEndpointIndex s < N \<Longrightarrow>
   \<exists>m. 1 \<le> m \<and> a + m \<le> N \<and>
       http_log w' = http_log w @ map (\<lambda>k. (endpoint_at s k @ path, data)) [0..<m] \<and>
       net w' = net w \<and>
       (\<forall>k<m - 1. isl (attempt_answer path data s w k)) \<and>
       s' = s\<lparr>currentEndpointIndex := (currentEndpointIndex s + (m - 1)) mod N\<rparr> \<and>
       (case r of
          Inr d \<Rightarrow> attempt_answer path data s w (m - 1) = Inr d
        | Inl e \<Rightarrow> a + m = N \<and>
            (\<exists>e'. attempt_answer path data s w (m - 1) = Inl e' \<and> e = exhausted_error N (Some e')))"
proof (induction path data N a le s w arbitrary: r s' w' rule: makeRpcCall_loop.induct)
  case (1 path data N a le s w)
  let ?i = "currentEndpointIndex s"
  obtain r1 w1 where post: "axios_post (getCurrentEndpoint s @ path) data w = (r1, w1)"
    by (cases "axios_post (getCurrentEndpoint s @ path) data w")
  have ep0: "endpoint_at s 0 = getCurrentEndpoint s"
    using "1.prems" by (simp add: endpoint_at_0)
  from axios_post_effect [OF post] have
    r1: "attempt_answer path data s w 0 = r1"
    and log1: "http_log w1 = http_log w @ [(endpoint_at s 0 @ path, data)]"
    and net1: "net w1 = net w"
    by (simp_all add: attempt_answer_def ep0)
  have same: "s\<lparr>currentEndpointIndex := ?i mod N\<rparr> = s"
    using "1.prems" by simp
  show ?case
  proof (cases r1)
    case (Inr d)
    with "1.prems"(1,2) post have res: "r = Inr d" "s' = s" "w' = w1"
      by (simp_all add: makeRpcCall_loop.simps)
    have "1 \<le> (1::nat) \<and> a + 1 \<le> N \<and>
       http_log w' = http_log w @ map (\<lambda>k. (endpoint_at s k @ path, data)) [0..<1] \<and>
       net w' = net w \<and>
       (\<forall>k<(1::nat) - 1. isl (attempt_answer path data s w k)) \<and>
       s' = s\<lparr>currentEndpointIndex := (?i + (1 - 1)) mod N\<rparr> \<and>
       (case r of
          Inr d \<Rightarrow> attempt_answer path data s w (1 - 1) = Inr d
        | Inl e \<Rightarrow> a + 1 = N \<and>
            (\<exists>e'. attempt_answer path data s w (1 - 1) = Inl e' \<and> e = exhausted_error N (Some e')))"
      using res log1 net1 r1 Inr same "1.prems"(2) by simp
    then show ?thesis by blast
  next
    case (Inl e)
    show ?thesis
    proof (cases "a < N - 1")
      case False
      with "1.prems" have last: "a + 1 = N" by simp
      have stop: "makeRpcCall_loop path data N N (Some e) s w1 = (Inl (exhausted_error N (Some e)), s, w1)"
        by (simp add: makeRpcCall_loop.simps [of path data N N])
      from "1.prems"(1,2) post Inl False have
        "makeRpcCall_loop path data N (a + 1) (Some e) s w1 = (r, s', w')"
        by (simp add: makeRpcCall_loop.simps [of path data N a])
      with last stop have res: "r = Inl (exhausted_error N (Some e))" "s' = s" "w' = w1"
        by simp_all
      have "1 \<le> (1::nat) \<and> a + 1 \<le> N \<and>
         http_log w' = http_log w @ map (\<lambda>k. (endpoint_at s k @ path, data)) [0..<1] \<and>
         net w' = net w \<and>
         (\<forall>k<(1::nat) - 1. isl (attempt_answer path data s w k)) \<and>
         s' = s\<lparr>currentEndpointIndex := (?i + (1 - 1)) mod N\<rparr> \<and>
         (case r of
            Inr d \<Rightarrow> attempt_answer path data s w (1 - 1) = Inr d
          | Inl e \<Rightarrow> a + 1 = N \<and>
              (\<exists>e'. attempt_answer path data s w (1 - 1) = Inl e' \<and> e = exhausted_error N (Some e')))"
        using res log1 net1 r1 Inl same last by simp
      then show ?thesis by blast
    next
      case True
      let ?s1 = "switchToNextEndpoint s"
      from True "1.prems"(1,2) post Inl have rec:
        "makeRpcCall_loop path data N (a + 1) (Some e) ?s1 w1 = (r, s', w')"
        by (simp add: makeRpcCall_loop.simps [of path data N a])
      have Npos: "0 < length (rpcEndpoints s)" using "1.prems"(2,3) by (cases "rpcEndpoints s") auto
      have s1: "N = length (rpcEndpoints ?s1)" "currentEndpointIndex ?s1 < N"
        "currentEndpointIndex ?s1 = (?i + 1) mod N"
        using Npos by (simp_all add: switchToNextEndpoint_def "1.prems"(3))
      have aN: "a + 1 < N" using True by simp
      have if_s1: "(if a < N - 1 then switchToNextEndpoint s else s) = ?s1" using True by simp
      from "1.IH" [OF "1.prems"(2) post [symmetric] Inl, unfolded if_s1, OF rec aN s1(1) s1(2)]
      obtain m where m: "1 \<le> m" "a + 1 + m \<le> N"
        and logm: "http_log w' = http_log w1 @ map (\<lambda>k. (endpoint_at ?s1 k @ path, data)) [0..<m]"
        and netm: "net w' = net w1"
        and failm: "\<forall>k<m - 1. isl (attempt_answer path data ?s1 w1 k)"
        and sm: "s' = ?s1\<lparr>currentEndpointIndex := (currentEndpointIndex ?s1 + (m - 1)) mod N\<rparr>"
        and rm: "(case r of
            Inr d \<Rightarrow> attempt_answer path data ?s1 w1 (m - 1) = Inr d
          | Inl e \<Rightarrow> a + 1 + m = N \<and>
              (\<exists>e'. attempt_answer path data ?s1 w1 (m - 1) = Inl e' \<and> e = exhausted_error N (Some e')))"
        by blast
      have shift: "attempt_answer path data ?s1 w1 k = attempt_answer path data s w (Suc k)" for k
        by (simp add: attempt_answer_def endpoint_at_switch log1 net1)
      have c1: "1 \<le> Suc m" "a + Suc m \<le> N" using m by simp_all
      have c2: "http_log w' = http_log w @ map (\<lambda>k. (endpoint_at s k @ path, data)) [0..<Suc m]"
        by (simp add: logm log1 endpoint_at_switch map_upt_Suc del: upt_Suc)
      have c3: "net w' = net w" by (simp add: netm net1)
      have c4: "\<forall>k<Suc m - 1. isl (attempt_answer path data s w k)"
      proof (intro allI impI)
        fix k assume k: "k < Suc m - 1"
        show "isl (attempt_answer path data s w k)"
        proof (cases k)
          case 0
          with r1 Inl show ?thesis by simp
        next
          case (Suc j)
          with k have "j < m - 1" by simp
          with failm shift Suc show ?thesis by simp
        qed
      qed
      obtain j where j: "m = Suc j" using m(1) by (cases m) auto
      have idx: "((?i + 1) mod N + (m - 1)) mod N = (?i + (Suc m - 1)) mod N"
        unfolding j using mod_add_left_eq [of "?i + 1" N j] by simp
      have c5: "s' = s\<lparr>currentEndpointIndex := (?i + (Suc m - 1)) mod N\<rparr>"
        unfolding sm s1(3) idx by (simp add: switchToNextEndpoint_def)
      have c6: "(case r of
            Inr d \<Rightarrow> attempt_answer path data s w (Suc m - 1) = Inr d
          | Inl e \<Rightarrow> a + Suc m = N \<and>
              (\<exists>e'. attempt_answer path data s w (Suc m - 1) = Inl e' \<and> e = exhausted_error N (Some e')))"
        using rm unfolding j by (simp add: shift split: sum.splits)
      from c1 c2 c3 c4 c5 c6 show ?thesis by blast
    qed
  qed
qed

lemma round_robin_distinct:
  assumes "m \<le> N"
  shows "distinct (map (\<lambda>k. (i + k) mod N) [0..<m])"
proof -
  have "inj_on (\<lambda>k. (i + k) mod N) {0..<m}"
  proof (rule inj_onI)
    fix x y assume x: "x \<in> {0..<m}" and y: "y \<in> {0..<m}"
      and eq: "(i + x) mod N = (i + y) mod N"
    have aux: "a = b" if "a \<le> b" "b < N" "(i + a) mod N = (i + b) mod N" for a b
    proof (rule ccontr)
      assume "a \<noteq> b"
      with that(1) have pos: "0 < b - a" by simp
      from that(1,3) have "N dvd (i + b) - (i + a)"
        using mod_eq_dvd_iff_nat [of "i + a" "i + b" N] by simp
      then have "N dvd b - a" by simp
      moreover have "b - a < N" using that(2) by simp
      ultimately show False using pos nat_dvd_not_less by blast
    qed
    from x y assms have "x < N" "y < N" by simp_all
    then show "x = y" using aux [of x y] aux [of y x] eq by (cases "x \<le> y") auto
  qed
  then show ?thesis by (simp add: distinct_map)
qed

text \<open>
  C7. One \<open>makeRpcCall\<close>, started with a valid endpoint index, makes \<open>m\<close> attempts,
  \<open>1 \<le> m \<le> N\<close>: attempt \<open>k\<close> goes to the endpoint \<open>k\<close> places after the current one,
  round-robin, so no endpoint is tried twice; all attempts before the last failed. If the
  call returns, it returns the answer of the last attempt; if it throws, all \<open>N\<close> were
  tried and the error's message ends with the message of the last failure. The index
  moves only past failed endpoints and stays on the endpoint of the last attempt, so a
  call whose first attempt succeeds leaves the service unchanged.
\<close>

theorem makeRpcCall_failover:
  assumes "makeRpcCall path data s w = (r, s', w')"
    and "currentEndpointIndex s < length (rpcEndpoints s)"
  shows "\<exists>m. 1 \<le> m \<and> m \<le> length (rpcEndpoints s) \<and>
      http_log w' = http_log w @ map (\<lambda>k. (endpoint_at s k @ path, data)) [0..<m] \<and>
      distinct (map (\<lambda>k. (currentEndpointIndex s + k) mod length (rpcEndpoints s)) [0..<m]) \<and>
      list_all (\<lambda>k. isl (attempt_answer path data s w k)) [0..<m - 1] \<and>
      s' = s\<lparr>currentEndpointIndex := (currentEndpointIndex s + (m - 1)) mod length (rpcEndpoints s)\<rparr> \<and>
      (s' \<noteq> s \<longrightarrow> isl (attempt_answer path data s w 0)) \<and>
      (case r of
         Inr d \<Rightarrow> attempt_answer path data s w (m - 1) = Inr d
       | Inl e \<Rightarrow> m = length (rpcEndpoints s) \<and>
           (\<exists>e'. attempt_answer path data s w (m - 1) = Inl e' \<and>
              e = JsError (''Failed to connect to any EOS RPC endpoint after ''
                           @ string_of_nat (length (rpcEndpoints s))
                           @ '' attempts. Last error: '' @ message e') None))"
proof -
  let ?N = "length (rpcEndpoints s)" and ?i = "currentEndpointIndex s"
  from assms(2) have pos: "0 < ?N" by (cases "rpcEndpoints s") auto
  from assms(1) have loop: "makeRpcCall_loop path data ?N 0 None s w = (r, s', w')"
    by (simp add: makeRpcCall_def)
  from makeRpcCall_loop_char [OF loop pos refl assms(2)] obtain m
    where m: "1 \<le> m" "0 + m \<le> ?N"
      and log: "http_log w' = http_log w @ map (\<lambda>k. (endpoint_at s k @ path, data)) [0..<m]"
      and fails: "\<forall>k<m - 1. isl (attempt_answer path data s w k)"
      and st: "s' = s\<lparr>currentEndpointIndex := (?i + (m - 1)) mod ?N\<rparr>"
      and res: "(case r of
          Inr d \<Rightarrow> attempt_answer path data s w (m - 1) = Inr d
        | Inl e \<Rightarrow> 0 + m = ?N \<and>
            (\<exists>e'. attempt_answer path data s w (m - 1) = Inl e' \<and> e = exhausted_error ?N (Some e')))"
    by blast
  from m have mN: "m \<le> ?N" by simp
  have dist: "distinct (map (\<lambda>k. (?i + k) mod ?N) [0..<m])"
    using mN by (rule round_robin_distinct)
  have fails': "list_all (\<lambda>k. isl (attempt_answer path data s w k)) [0..<m - 1]"
    using fails by (simp add: list_all_iff)
  have sticky: "s' \<noteq> s \<longrightarrow> isl (attempt_answer path data s w 0)"
  proof
    assume ne: "s' \<noteq> s"
    have "m \<noteq> 1"
    proof
      assume "m = 1"
      with st assms(2) have "s' = s" by simp
      with ne show False by simp
    qed
    with m have "0 < m - 1" by simp
    with fails show "isl (attempt_answer path data s w 0)" by blast
  qed
  have res': "(case r of
         Inr d \<Rightarrow> attempt_answer path data s w (m - 1) = Inr d
       | Inl e \<Rightarrow> m = ?N \<and>
           (\<exists>e'. attempt_answer path data s w (m - 1) = Inl e' \<and>
              e = JsError (''Failed to connect to any EOS RPC endpoint after ''
                           @ string_of_nat ?N @ '' attempts. Last error: '' @ message e') None))"
    using res by (auto simp: exhausted_error_def split: sum.splits)
  from m(1) mN log dist fails' st sticky res' show ?thesis by blast
qed

text \<open>
  An instance: three endpoints, the second current, two timeouts and then an answer. The
  attempts go to the second, third and first endpoint, and the first stays selected.
\<close>

theorem makeRpcCall_failover_witness:
  "(\<exists>w'. makeRpcCall ''/v1/chain/get_info'' None eos_three world_two_down =
       (Inr (beacon_reply lower_hex_id), eos_three\<lparr>currentEndpointIndex := 0\<rparr>, w') \<and>
     http_log w' = [(''https://b.example/v1/chain/get_info'', None),
                    (''https://c.example/v1/chain/get_info'', None),
                    (''https://a.example/v1/chain/get_info'', None)] \<and>
     (\<exists>m. 1 \<le> m \<and> m \<le> length (rpcEndpoints eos_three) \<and>
      http_log w' = http_log world_two_down
         @ map (\<lambda>k. (endpoint_at eos_three k @ ''/v1/chain/get_info'', None)) [0..<m] \<and>
      distinct (map (\<lambda>k. (currentEndpointIndex eos_three + k) mod length (rpcEndpoints eos_three)) [0..<m]) \<and>
      list_all (\<lambda>k. isl (attempt_answer ''/v1/chain/get_info'' None eos_three world_two_down k)) [0..<m - 1] \<and>
      eos_three\<lparr>currentEndpointIndex := 0\<rparr> = eos_three\<lparr>currentEndpointIndex :=
          (currentEndpointIndex eos_three + (m - 1)) mod length (rpcEndpoints eos_three)\<rparr> \<and>
      (eos_three\<lparr>currentEndpointIndex := 0\<rparr> \<noteq> eos_three \<longrightarrow>
         isl (attempt_answer ''/v1/chain/get_info'' None eos_three world_two_down 0)) \<and>
      attempt_answer ''/v1/chain/get_info'' None eos_three world_two_down (m - 1) = Inr (beacon_reply lower_hex_id)))
   \<and> currentEndpointIndex eos_three < length (rpcEndpoints eos_three)"
proof -
  have idx: "currentEndpointIndex eos_three < length (rpcEndpoints eos_three)"
    by (simp add: eos_three_def)
  obtain r s' w' where call: "makeRpcCall ''/v1/chain/get_info'' None eos_three world_two_down = (r, s', w')"
    by (cases "makeRpcCall ''/v1/chain/get_info'' None eos_three world_two_down")
  have "fst (makeRpcCall ''/v1/chain/get_info'' None eos_three world_two_down) = Inr (beacon_reply lower_hex_id)"
    "fst (snd (makeRpcCall ''/v1/chain/get_info'' None eos_three world_two_down)) = eos_three\<lparr>currentEndpointIndex := 0\<rparr>"
    "http_log (snd (snd (makeRpcCall ''/v1/chain/get_info'' None eos_three world_two_down))) =
       [(''https://b.example/v1/chain/get_info'', None),
        (''https://c.example/v1/chain/get_info'', None),
        (''https://a.example/v1/chain/get_info'', None)]"
    by (simp_all add: makeRpcCall_def makeRpcCall_loop.simps axios_post_def getCurrentEndpoint_def
        switchToNextEndpoint_def eos_three_def world_two_down_def world_beacon_def)
  with call have r: "r = Inr (beacon_reply lower_hex_id)" and s': "s' = eos_three\<lparr>currentEndpointIndex := 0\<rparr>"
    and log: "http_log w' = [(''https://b.example/v1/chain/get_info'', None),
                    (''https://c.example/v1/chain/get_info'', None),
                    (''https://a.example/v1/chain/get_info'', None)]"
    by simp_all
  from makeRpcCall_failover [OF call idx] r s' have
    "\<exists>m. 1 \<le> m \<and> m \<le> length (rpcEndpoints eos_three) \<and>
      http_log w' = http_log world_two_down
         @ map (\<lambda>k. (endpoint_at eos_three k @ ''/v1/chain/get_info'', None)) [0..<m] \<and>
      distinct (map (\<lambda>k. (currentEndpointIndex eos_three + k) mod length (rpcEndpoints eos_three)) [0..<m]) \<and>
      list_all (\<lambda>k. isl (attempt_answer ''/v1/chain/get_info'' None eos_three world_two_down k)) [0..<m - 1] \<and>
      eos_three\<lparr>currentEndpointIndex := 0\<rparr> = eos_three\<lparr>currentEndpointIndex :=
          (currentEndpointIndex eos_three + (m - 1)) mod length (rpcEndpoints eos_three)\<rparr> \<and>
      (eos_three\<lparr>currentEndpointIndex := 0\<rparr> \<noteq> eos_three \<longrightarrow>
         isl (attempt_answer ''/v1/chain/get_info'' None eos_three world_two_down 0)) \<and>
      attempt_answer ''/v1/chain/get_info'' None eos_three world_two_down (m - 1) = Inr (beacon_reply lower_hex_id)"
    by simp
  with call r s' log idx show ?thesis by blast
qed

section \<open>Properties of the game manager\<close>

lemmas gateway_defs = contract_getPotState_def contract_send_def supabase_call_def logger_def

lemmas tick_defs = checkAndProcessGameState_def tick_enter_def tick_settle_def tick_try_def
  handleIdlePhase_def handleBettingPhase_def handleLockedPhase_def handleCompletePhase_def
  lockGame_def finishGame_def createGameRound_def updateGameRound_def storeEosProof_def
  gateway_defs phase_IDLE_def phase_BETTING_def phase_LOCKED_def phase_COMPLETE_def
  winner_val_def manager_default_def world_round_def round_state_def receipt_ok_def
  state_betting_def state_locked_def state_locked_empty_def state_complete_def

subsection \<open>Errors stay inside the tick\<close>

text \<open>
  C8. A tick never propagates an exception: whatever the manager's state and whatever the
  ledger, the beacon and the persistence store answer (a failed ledger read, a failing
  handler, an unknown phase value), \<open>checkAndProcessGameState\<close> completes normally.
\<close>

theorem tick_never_throws: "fst (checkAndProcessGameState m w) = Inr ()"
  by (simp add: checkAndProcessGameState_def tick_enter_def tick_settle_def
      split: prod.splits sum.splits)

subsection \<open>Persistence helpers and ledger actions\<close>

lemma createGameRound_swallows:
  "fst (createGameRound p w) = Inr ()"
  "\<exists>c. db_log (snd (createGameRound p w)) = db_log w @ [c]"
  "ledger_log (snd (createGameRound p w)) = ledger_log w"
  "http_log (snd (createGameRound p w)) = http_log w"
  by (auto simp: createGameRound_def gateway_defs Let_def split: prod.splits option.splits)

lemma updateGameRound_swallows:
  "fst (updateGameRound p u w) = Inr ()"
  "db_log (snd (updateGameRound p u w)) = db_log w @ [UpdateGameRoundByPotId p u]"
  "ledger_log (snd (updateGameRound p u w)) = ledger_log w"
  "http_log (snd (updateGameRound p u w)) = http_log w"
  by (auto simp: updateGameRound_def gateway_defs split: prod.splits option.splits)

lemma storeEosProof_swallows:
  "fst (storeEosProof p eb w) = Inr ()"
  "\<exists>c. db_log (snd (storeEosProof p eb w)) = db_log w @ [c]"
  "ledger_log (snd (storeEosProof p eb w)) = ledger_log w"
  "http_log (snd (storeEosProof p eb w)) = http_log w"
  by (auto simp: storeEosProof_def gateway_defs Let_def split: prod.splits option.splits)

lemma lockGame_ledger:
  "fst (lockGame st w) = ledger_outcome LockGame w"
  "ledger_log (snd (lockGame st w)) = ledger_log w @ [LockGame]"
  "http_log (snd (lockGame st w)) = http_log w"
  "length (db_log (snd (lockGame st w))) =
     length (db_log w) + (if isl (ledger_outcome LockGame w) then 0 else 1)"
  by (auto simp: lockGame_def updateGameRound_def ledger_outcome_def gateway_defs Let_def
           split: prod.splits sum.splits option.splits)

lemma finishGame_ledger:
  "fst (finishGame st eb w) = ledger_outcome (FinishGame (blockHash eb)) w"
  "ledger_log (snd (finishGame st eb w)) = ledger_log w @ [FinishGame (blockHash eb)]"
  "http_log (snd (finishGame st eb w)) = http_log w"
  "length (db_log (snd (finishGame st eb w))) =
     length (db_log w) + (if isl (ledger_outcome (FinishGame (blockHash eb)) w) then 0 else 2)"
  by (auto simp: finishGame_def updateGameRound_def storeEosProof_def ledger_outcome_def
                 gateway_defs Let_def
           split: prod.splits sum.splits option.splits)

lemma handleIdlePhase_ledger:
  "fst (handleIdlePhase st m w) = Inr ()"
  "fst (snd (handleIdlePhase st m w)) = m"
  "ledger_log (snd (snd (handleIdlePhase st m w))) = ledger_log w @ [StartGame]"
  "http_log (snd (snd (handleIdlePhase st m w))) = http_log w"
  "length (db_log (snd (snd (handleIdlePhase st m w)))) =
     length (db_log w) + (if isl (ledger_outcome StartGame w) then 0 else 1)"
  by (auto simp: handleIdlePhase_def createGameRound_def ledger_outcome_def gateway_defs Let_def
           split: prod.splits sum.splits option.splits)

lemma ledger_outcome_db [simp]: "ledger_outcome c (w\<lparr>db := d\<rparr>) = ledger_outcome c w"
  by (simp add: ledger_outcome_def)

text \<open>
  C9. The three persistence helpers never throw and write once, whether the store accepts
  the write or not. So for the Idle action, \<open>lockGame\<close> and \<open>finishGame\<close>, replacing the
  store's answers \<open>db w\<close> by any others \<open>d\<close> changes neither the outcome of the action
  (success, or the ledger's error rethrown) nor the ledger calls made, nor the number of
  writes attempted.
\<close>

theorem persistence_failures_do_not_reach_the_ledger:
  "fst (createGameRound p w) = Inr () \<and> fst (updateGameRound p u w) = Inr () \<and>
   fst (storeEosProof p eb w) = Inr () \<and>
   length (db_log (snd (createGameRound p w))) = length (db_log w) + 1 \<and>
   length (db_log (snd (updateGameRound p u w))) = length (db_log w) + 1 \<and>
   length (db_log (snd (storeEosProof p eb w))) = length (db_log w) + 1 \<and>
   fst (handleIdlePhase st m (w\<lparr>db := d\<rparr>)) = fst (handleIdlePhase st m w) \<and>
   ledger_log (snd (snd (handleIdlePhase st m (w\<lparr>db := d\<rparr>)))) = ledger_log (snd (snd (handleIdlePhase st m w))) \<and>
   length (db_log (snd (snd (handleIdlePhase st m (w\<lparr>db := d\<rparr>))))) = length (db_log (snd (snd (handleIdlePhase st m w)))) \<and>
   fst (lockGame st (w\<lparr>db := d\<rparr>)) = fst (lockGame st w) \<and>
   ledger_log (snd (lockGame st (w\<lparr>db := d\<rparr>))) = ledger_log (snd (lockGame st w)) \<and>
   length (db_log (snd (lockGame st (w\<lparr>db := d\<rparr>)))) = length (db_log (snd (lockGame st w))) \<and>
   fst (finishGame st eb (w\<lparr>db := d\<rparr>)) = fst (finishGame st eb w) \<and>
   ledger_log (snd (finishGame st eb (w\<lparr>db := d\<rparr>))) = ledger_log (snd (finishGame st eb w)) \<and>
   length (db_log (snd (finishGame st eb (w\<lparr>db := d\<rparr>)))) = length (db_log (snd (finishGame st eb w)))"
proof -
  have swallow: "fst (createGameRound p w) = Inr ()" "fst (updateGameRound p u w) = Inr ()"
    "fst (storeEosProof p eb w) = Inr ()"
    by (rule createGameRound_swallows updateGameRound_swallows storeEosProof_swallows)+
  have once: "length (db_log (snd (createGameRound p w))) = length (db_log w) + 1"
    "length (db_log (snd (updateGameRound p u w))) = length (db_log w) + 1"
    "length (db_log (snd (storeEosProof p eb w))) = length (db_log w) + 1"
    using createGameRound_swallows(2) [of p w] storeEosProof_swallows(2) [of p eb w]
    by (auto simp: updateGameRound_swallows)
  have idle: "fst (handleIdlePhase st m (w\<lparr>db := d\<rparr>)) = fst (handleIdlePhase st m w)"
    "ledger_log (snd (snd (handleIdlePhase st m (w\<lparr>db := d\<rparr>)))) = ledger_log (snd (snd (handleIdlePhase st m w)))"
    "length (db_log (snd (snd (handleIdlePhase st m (w\<lparr>db := d\<rparr>))))) = length (db_log (snd (snd (handleIdlePhase st m w))))"
    by (simp_all add: handleIdlePhase_ledger)
  have lock: "fst (lockGame st (w\<lparr>db := d\<rparr>)) = fst (lockGame st w)"
    "ledger_log (snd (lockGame st (w\<lparr>db := d\<rparr>))) = ledger_log (snd (lockGame st w))"
    "length (db_log (snd (lockGame st (w\<lparr>db := d\<rparr>)))) = length (db_log (snd (lockGame st w)))"
    by (simp_all add: lockGame_ledger)
  have fin: "fst (finishGame st eb (w\<lparr>db := d\<rparr>)) = fst (finishGame st eb w)"
    "ledger_log (snd (finishGame st eb (w\<lparr>db := d\<rparr>))) = ledger_log (snd (finishGame st eb w))"
    "length (db_log (snd (finishGame st eb (w\<lparr>db := d\<rparr>)))) = length (db_log (snd (finishGame st eb w)))"
    by (simp_all add: finishGame_ledger)
  from swallow once idle lock fin show ?thesis by simp
qed

subsection \<open>What each handler asks of the ledger\<close>

lemma lockGame_result:
  "lockGame st w = (r, w') \<Longrightarrow>
     r = ledger_outcome LockGame w \<and> ledger_log w' = ledger_log w @ [LockGame] \<and> http_log w' = http_log w"
  using lockGame_ledger(1,2,3) [of st w] by simp

lemma finishGame_result:
  "finishGame st eb w = (r, w') \<Longrightarrow>
     r = ledger_outcome (FinishGame (blockHash eb)) w \<and>
     ledger_log w' = ledger_log w @ [FinishGame (blockHash eb)] \<and> http_log w' = http_log w"
  using finishGame_ledger(1,2,3) [of st eb w] by simp

lemma handleIdlePhase_result:
  "handleIdlePhase st m w = (r, m', w') \<Longrightarrow>
     r = Inr () \<and> m' = m \<and> ledger_log w' = ledger_log w @ [StartGame] \<and> http_log w' = http_log w"
  using handleIdlePhase_ledger(1,2,3,4) [of st m w] by simp

lemma handleBettingPhase_result:
  assumes "handleBettingPhase st m w = (r, m', w')"
  shows "r = Inr ()" and "m' = m"
    and "ledger_log w' = ledger_log w @ (if expired st m (now w) then [LockGame] else [])"
    and "http_log w' = http_log w"
    and "\<not> expired st m (now w) \<Longrightarrow> db_log w' = db_log w"
    and "\<not> expired st m (now w) \<Longrightarrow> logs w' = logs w @
           (if startTime st + gameTimerDuration m - now w div 1000 \<in> {30, 10, 5}
            then [(Info, ''Game timer update'')] else [])"
  using assms
  by (auto simp: handleBettingPhase_def Let_def expired_def logger_def
           split: prod.splits sum.splits if_splits dest!: lockGame_result)

lemma handleLockedPhase_cancel:
  assumes "handleLockedPhase st m w = (r, m', w')" and "tickets st = 0"
  shows "r = Inr ()" and "m' = m"
    and "ledger_log w' = ledger_log w @ [EmergencyCancel]"
    and "http_log w' = http_log w" and "db_log w' = db_log w"
  using assms
  by (auto simp: handleLockedPhase_def Let_def gateway_defs split: prod.splits sum.splits)

lemma handleLockedPhase_finish:
  assumes "handleLockedPhase st m w = (r, m', w')" and "tickets st \<noteq> 0"
  shows "r = Inr ()" and "isProcessing m' = isProcessing m"
    and "\<exists>calls. ledger_log w' = ledger_log w @ calls \<and> EmergencyCancel \<notin> set calls"
proof -
  let ?w1 = "logger Info ''Fetching EOS randomness'' (logger Info ''Game in LOCKED phase - fetching randomness'' w)"
  obtain r1 s1 w1 where fb: "getFutureBlockHash None (eosService m) ?w1 = (r1, s1, w1)"
    by (cases "getFutureBlockHash None (eosService m) ?w1")
  from getFutureBlockHash_frame [OF fb] have l1: "ledger_log w1 = ledger_log w"
    by (simp add: beacon_step_fields logger_def)
  show "r = Inr ()" "isProcessing m' = isProcessing m"
    using assms fb by (auto simp: handleLockedPhase_def Let_def split: prod.splits sum.splits)
  show "\<exists>calls. ledger_log w' = ledger_log w @ calls \<and> EmergencyCancel \<notin> set calls"
  proof (cases r1)
    case (Inl e)
    with assms fb have "ledger_log w' = ledger_log w1"
      by (auto simp: handleLockedPhase_def Let_def logger_def)
    with l1 have "ledger_log w' = ledger_log w @ [] \<and> EmergencyCancel \<notin> set []" by simp
    then show ?thesis by blast
  next
    case (Inr eb)
    obtain r2 w2 where fg: "finishGame st eb (logger Info ''EOS randomness fetched'' w1) = (r2, w2)"
      by (cases "finishGame st eb (logger Info ''EOS randomness fetched'' w1)")
    from finishGame_result [OF fg] have "ledger_log w2 = ledger_log w1 @ [FinishGame (blockHash eb)]"
      by (simp add: logger_def)
    moreover from assms fb Inr fg have "ledger_log w' = ledger_log w2"
      by (auto simp: handleLockedPhase_def Let_def logger_def split: sum.splits)
    ultimately have "ledger_log w' = ledger_log w @ [FinishGame (blockHash eb)] \<and>
        EmergencyCancel \<notin> set [FinishGame (blockHash eb)]"
      using l1 by simp
    then show ?thesis by blast
  qed
qed

lemma handleCompletePhase_result:
  "handleCompletePhase st m w =
     (Inr (), m, logger Info ''Game in COMPLETE phase - waiting for transition to IDLE'' w)"
  by (simp add: handleCompletePhase_def)

lemma tick_read:
  assumes "ledger_state w (length (ledger_log w)) = (took, Inr st)"
  shows "tick_try m w =
     (let w2 = logger Debug ''Game state check''
                 (w\<lparr>now := now w + int took, ledger_log := ledger_log w @ [GetPotState]\<rparr>)
      in if phase st = phase_IDLE then handleIdlePhase st m w2
         else if phase st = phase_BETTING then handleBettingPhase st m w2
         else if phase st = phase_LOCKED then handleLockedPhase st m w2
         else if phase st = phase_COMPLETE then handleCompletePhase st m w2
         else (Inr (), m, logger Error ''Unknown game phase'' w2))"
  using assms by (simp add: tick_try_def contract_getPotState_def Let_def)

lemma tick_unguarded:
  assumes "\<not> isProcessing m"
  shows "checkAndProcessGameState m w = tick_settle (m\<lparr>isProcessing := True\<rparr>) w"
  using assms by (simp add: checkAndProcessGameState_def tick_enter_def)

lemma tick_settle_fields:
  assumes "tick_try m w = (r, m', w')"
  shows "ledger_log (snd (snd (tick_settle m w))) = ledger_log w'"
    and "http_log (snd (snd (tick_settle m w))) = http_log w'"
    and "db_log (snd (snd (tick_settle m w))) = db_log w'"
    and "fst (snd (tick_settle m w)) = m'\<lparr>isProcessing := False\<rparr>"
    and "r = Inr () \<Longrightarrow> logs (snd (snd (tick_settle m w))) = logs w'"
  using assms by (auto simp: tick_settle_def logger_def split: sum.splits)

lemma tick_try_calls:
  assumes "tick_try m w = (r, m', w')"
  shows "isProcessing m' = isProcessing m"
    and "\<exists>calls. ledger_log w' = ledger_log w @ GetPotState # calls \<and>
           (EmergencyCancel \<in> set calls \<longrightarrow>
              (\<exists>took st. ledger_state w (length (ledger_log w)) = (took, Inr st) \<and>
                 phase st = phase_LOCKED \<and> tickets st = 0))"
proof -
  obtain took a where rd: "ledger_state w (length (ledger_log w)) = (took, a)"
    by (cases "ledger_state w (length (ledger_log w))")
  let ?w2 = "logger Debug ''Game state check''
               (w\<lparr>now := now w + int took, ledger_log := ledger_log w @ [GetPotState]\<rparr>)"
  have w2: "ledger_log ?w2 = ledger_log w @ [GetPotState]" by (simp add: logger_def)
  have both: "isProcessing m' = isProcessing m \<and>
      (\<exists>calls. ledger_log w' = ledger_log w @ GetPotState # calls \<and>
           (EmergencyCancel \<in> set calls \<longrightarrow>
              (\<exists>took st. ledger_state w (length (ledger_log w)) = (took, Inr st) \<and>
                 phase st = phase_LOCKED \<and> tickets st = 0)))"
  proof (cases a)
    case (Inl e)
    with rd assms have "m' = m" "ledger_log w' = ledger_log w @ GetPotState # []"
      by (auto simp: tick_try_def contract_getPotState_def)
    then show ?thesis by auto
  next
    case (Inr st)
    note read = tick_read [OF rd [unfolded Inr], of m, unfolded Let_def]
    consider (idle) "phase st = phase_IDLE" | (betting) "phase st = phase_BETTING"
      | (cancel) "phase st = phase_LOCKED" "tickets st = 0"
      | (finish) "phase st = phase_LOCKED" "tickets st \<noteq> 0"
      | (complete) "phase st = phase_COMPLETE"
      | (unknown) "phase st \<noteq> phase_IDLE" "phase st \<noteq> phase_BETTING" "phase st \<noteq> phase_LOCKED"
          "phase st \<noteq> phase_COMPLETE"
      by blast
    then show ?thesis
    proof cases
      case idle
      with read assms have "handleIdlePhase st m ?w2 = (r, m', w')" by simp
      from handleIdlePhase_result [OF this] w2
      have "m' = m" "ledger_log w' = ledger_log w @ GetPotState # [StartGame]" by simp_all
      then show ?thesis by auto
    next
      case betting
      with read assms have hb: "handleBettingPhase st m ?w2 = (r, m', w')"
        by (simp add: phase_IDLE_def phase_BETTING_def)
      from handleBettingPhase_result(2,3) [OF hb] w2
      have "m' = m" "ledger_log w' = ledger_log w @ GetPotState #
          (if expired st m (now ?w2) then [LockGame] else [])" by simp_all
      then show ?thesis by auto
    next
      case cancel
      with read assms have hl: "handleLockedPhase st m ?w2 = (r, m', w')"
        by (simp add: phase_IDLE_def phase_BETTING_def phase_LOCKED_def)
      from handleLockedPhase_cancel(2,3) [OF hl cancel(2)] w2
      have "m' = m" "ledger_log w' = ledger_log w @ GetPotState # [EmergencyCancel]" by simp_all
      with rd Inr cancel show ?thesis by auto
    next
      case finish
      with read assms have hl: "handleLockedPhase st m ?w2 = (r, m', w')"
        by (simp add: phase_IDLE_def phase_BETTING_def phase_LOCKED_def)
      from handleLockedPhase_finish(2,3) [OF hl finish(2)] w2
      obtain calls where "isProcessing m' = isProcessing m"
        "ledger_log w' = ledger_log w @ GetPotState # calls" "EmergencyCancel \<notin> set calls"
        by auto
      then show ?thesis by auto
    next
      case complete
      with read assms have "handleCompletePhase st m ?w2 = (r, m', w')"
        by (simp add: phase_IDLE_def phase_BETTING_def phase_LOCKED_def phase_COMPLETE_def)
      with w2 have "m' = m" "ledger_log w' = ledger_log w @ GetPotState # []"
        by (auto simp: handleCompletePhase_result logger_def)
      then show ?thesis by auto
    next
      case unknown
      with read assms have "m' = m" "ledger_log w' = ledger_log w @ GetPotState # []"
        by (auto simp: logger_def)
      then show ?thesis by auto
    qed
  qed
  from both show "isProcessing m' = isProcessing m" by simp
  from both show "\<exists>calls. ledger_log w' = ledger_log w @ GetPotState # calls \<and>
           (EmergencyCancel \<in> set calls \<longrightarrow>
              (\<exists>took st. ledger_state w (length (ledger_log w)) = (took, Inr st) \<and>
                 phase st = phase_LOCKED \<and> tickets st = 0))" by simp
qed

subsection \<open>The betting timer\<close>

text \<open>
  C6. A tick that finds the round in Betting issues the lock call exactly when the current
  time, read after the ledger state arrived, is at or past the start time plus the timer
  duration. While time remains it calls nothing on the ledger beyond the read and writes
  nothing to the store; it logs the state check and, at 30, 10 or 5 seconds remaining,
  the timer update. No beacon request is made either way.
\<close>

theorem betting_tick_locks_iff_expired:
  assumes "\<not> isProcessing m"
    and "ledger_state w (length (ledger_log w)) = (took, Inr st)"
    and "phase st = phase_BETTING"
  shows "ledger_log (snd (snd (checkAndProcessGameState m w))) =
           ledger_log w @ GetPotState # (if expired st m (now w + int took) then [LockGame] else []) \<and>
         http_log (snd (snd (checkAndProcessGameState m w))) = http_log w \<and>
         (\<not> expired st m (now w + int took) \<longrightarrow>
            db_log (snd (snd (checkAndProcessGameState m w))) = db_log w \<and>
            logs (snd (snd (checkAndProcessGameState m w))) =
              logs w @ (Debug, ''Game state check'') #
                (if startTime st + gameTimerDuration m - (now w + int took) div 1000 \<in> {30, 10, 5}
                 then [(Info, ''Game timer update'')] else []))"
proof -
  let ?m1 = "m\<lparr>isProcessing := True\<rparr>"
  let ?w2 = "logger Debug ''Game state check''
               (w\<lparr>now := now w + int took, ledger_log := ledger_log w @ [GetPotState]\<rparr>)"
  obtain r m' w' where hb: "handleBettingPhase st ?m1 ?w2 = (r, m', w')"
    by (cases "handleBettingPhase st ?m1 ?w2")
  have body: "tick_try ?m1 w = (r, m', w')"
    using tick_read [OF assms(2), of ?m1] assms(3) hb
    by (simp add: Let_def phase_IDLE_def phase_BETTING_def)
  have ex: "expired st ?m1 (now ?w2) = expired st m (now w + int took)"
    by (simp add: expired_def logger_def)
  note res = handleBettingPhase_result [OF hb]
  have 1: "ledger_log w' = ledger_log w @ GetPotState # (if expired st m (now w + int took) then [LockGame] else [])"
    using res(3) ex by (simp add: logger_def)
  have 2: "http_log w' = http_log w" using res(4) by (simp add: logger_def)
  have 3: "db_log w' = db_log w" if "\<not> expired st m (now w + int took)"
    using res(5) ex that by (simp add: logger_def)
  have 4: "logs w' = logs w @ (Debug, ''Game state check'') #
                (if startTime st + gameTimerDuration m - (now w + int took) div 1000 \<in> {30, 10, 5}
                 then [(Info, ''Game timer update'')] else [])"
    if "\<not> expired st m (now w + int took)"
    using res(6) ex that by (simp add: logger_def)
  show ?thesis
    unfolding tick_unguarded [OF assms(1)]
    using tick_settle_fields [OF body] res(1) 1 2 3 4 by simp
qed

text \<open>
  The scenario of the specification: start at second 0, a 60 s timer, a tick at second 61
  makes one read and exactly one lock call; a tick at second 30 makes the read alone.
\<close>

theorem betting_tick_locks_iff_expired_witness:
  "\<not> isProcessing manager_default \<and>
   ledger_state (world_round (state_betting) 61000) (length (ledger_log (world_round (state_betting) 61000)))
     = (50, Inr (state_betting)) \<and>
   phase (state_betting) = phase_BETTING \<and>
   expired (state_betting) manager_default (61000 + 50) \<and>
   ledger_log (snd (snd (checkAndProcessGameState manager_default (world_round (state_betting) 61000))))
     = [GetPotState, LockGame] \<and>
   \<not> expired (state_betting) manager_default (30000 + 50) \<and>
   ledger_log (snd (snd (checkAndProcessGameState manager_default (world_round (state_betting) 30000))))
     = [GetPotState] \<and>
   db_log (snd (snd (checkAndProcessGameState manager_default (world_round (state_betting) 30000)))) = []"
proof -
  have g: "\<not> isProcessing manager_default" by (simp add: manager_default_def)
  have rd: "ledger_state (world_round (state_betting) t) (length (ledger_log (world_round (state_betting) t)))
     = (50, Inr (state_betting))" for t
    by (simp add: world_round_def)
  have ph: "phase (state_betting) = phase_BETTING"
    by (simp add: state_betting_def round_state_def)
  have e1: "expired (state_betting) manager_default (61000 + 50)"
    and e2: "\<not> expired (state_betting) manager_default (30000 + 50)"
    by (simp_all add: expired_def state_betting_def round_state_def manager_default_def)
  have n: "now (world_round (state_betting) t) = t" "ledger_log (world_round (state_betting) t) = []"
    "db_log (world_round (state_betting) t) = []" for t
    by (simp_all add: world_round_def)
  from betting_tick_locks_iff_expired [OF g rd ph, of 61000] e1
  have a: "ledger_log (snd (snd (checkAndProcessGameState manager_default (world_round (state_betting) 61000))))
     = [GetPotState, LockGame]"
    by (simp add: n)
  from betting_tick_locks_iff_expired [OF g rd ph, of 30000] e2
  have b: "ledger_log (snd (snd (checkAndProcessGameState manager_default (world_round (state_betting) 30000))))
     = [GetPotState]"
    "db_log (snd (snd (checkAndProcessGameState manager_default (world_round (state_betting) 30000)))) = []"
    by (simp_all add: n)
  from g rd [of 61000] ph e1 a e2 b show ?thesis by simp
qed

subsection \<open>Cancellation\<close>

text \<open>
  C5. A tick that finds the round Locked with zero tickets calls \<open>emergencyCancel\<close> and
  nothing else: no beacon request, no write to the store. And whenever a tick calls
  \<open>emergencyCancel\<close>, the ledger had reported a Locked round with zero tickets.
\<close>

theorem locked_zero_tickets_cancels:
  "(\<not> isProcessing m \<and> ledger_state w (length (ledger_log w)) = (took, Inr st) \<and>
    phase st = phase_LOCKED \<and> tickets st = 0 \<longrightarrow>
      ledger_log (snd (snd (checkAndProcessGameState m w))) = ledger_log w @ [GetPotState, EmergencyCancel] \<and>
      http_log (snd (snd (checkAndProcessGameState m w))) = http_log w \<and>
      db_log (snd (snd (checkAndProcessGameState m w))) = db_log w) \<and>
   (EmergencyCancel \<in> set (drop (length (ledger_log w)) (ledger_log (snd (snd (checkAndProcessGameState m w))))) \<longrightarrow>
      \<not> isProcessing m \<and>
      (\<exists>took' st'. ledger_state w (length (ledger_log w)) = (took', Inr st') \<and>
         phase st' = phase_LOCKED \<and> tickets st' = 0))"
proof (intro conjI impI)
  assume a: "\<not> isProcessing m \<and> ledger_state w (length (ledger_log w)) = (took, Inr st) \<and>
    phase st = phase_LOCKED \<and> tickets st = 0"
  let ?m1 = "m\<lparr>isProcessing := True\<rparr>"
  let ?w2 = "logger Debug ''Game state check''
               (w\<lparr>now := now w + int took, ledger_log := ledger_log w @ [GetPotState]\<rparr>)"
  obtain r m' w' where hl: "handleLockedPhase st ?m1 ?w2 = (r, m', w')"
    by (cases "handleLockedPhase st ?m1 ?w2")
  from a have body: "tick_try ?m1 w = (r, m', w')"
    using tick_read [of w took st ?m1] hl
    by (simp add: Let_def phase_IDLE_def phase_BETTING_def phase_LOCKED_def)
  from a have zero: "tickets st = 0" by simp
  note res = handleLockedPhase_cancel [OF hl zero]
  from a have g: "\<not> isProcessing m" by simp
  show "ledger_log (snd (snd (checkAndProcessGameState m w))) = ledger_log w @ [GetPotState, EmergencyCancel]"
    "http_log (snd (snd (checkAndProcessGameState m w))) = http_log w"
    "db_log (snd (snd (checkAndProcessGameState m w))) = db_log w"
    unfolding tick_unguarded [OF g]
    using tick_settle_fields(1,2,3) [OF body] res(3,4,5) by (simp_all add: logger_def)
next
  assume c: "EmergencyCancel \<in> set (drop (length (ledger_log w)) (ledger_log (snd (snd (checkAndProcessGameState m w)))))"
  show g: "\<not> isProcessing m"
  proof
    assume "isProcessing m"
    then have "checkAndProcessGameState m w = (Inr (), m, w)"
      by (simp add: checkAndProcessGameState_def tick_enter_def)
    with c show False by simp
  qed
  let ?m1 = "m\<lparr>isProcessing := True\<rparr>"
  obtain r m' w' where body: "tick_try ?m1 w = (r, m', w')" by (cases "tick_try ?m1 w")
  from tick_try_calls(2) [OF body] obtain calls where calls:
    "ledger_log w' = ledger_log w @ GetPotState # calls"
    "EmergencyCancel \<in> set calls \<longrightarrow>
       (\<exists>took st. ledger_state w (length (ledger_log w)) = (took, Inr st) \<and>
          phase st = phase_LOCKED \<and> tickets st = 0)"
    by blast
  from c have "EmergencyCancel \<in> set calls"
    unfolding tick_unguarded [OF g] using tick_settle_fields(1) [OF body] calls(1) by simp
  with calls(2) show "\<exists>took' st'. ledger_state w (length (ledger_log w)) = (took', Inr st') \<and>
         phase st' = phase_LOCKED \<and> tickets st' = 0" by blast
qed

theorem locked_zero_tickets_cancels_witness:
  "\<not> isProcessing manager_default \<and>
   ledger_state (world_round state_locked_empty 70000) (length (ledger_log (world_round state_locked_empty 70000)))
     = (50, Inr state_locked_empty) \<and>
   phase state_locked_empty = phase_LOCKED \<and> tickets state_locked_empty = 0 \<and>
   ledger_log (snd (snd (checkAndProcessGameState manager_default (world_round state_locked_empty 70000))))
     = [GetPotState, EmergencyCancel] \<and>
   http_log (snd (snd (checkAndProcessGameState manager_default (world_round state_locked_empty 70000)))) = [] \<and>
   db_log (snd (snd (checkAndProcessGameState manager_default (world_round state_locked_empty 70000)))) = [] \<and>
   EmergencyCancel \<in> set (drop (length (ledger_log (world_round state_locked_empty 70000)))
      (ledger_log (snd (snd (checkAndProcessGameState manager_default (world_round state_locked_empty 70000))))))"
proof -
  let ?w = "world_round state_locked_empty 70000"
  have g: "\<not> isProcessing manager_default" by (simp add: manager_default_def)
  have rd: "ledger_state ?w (length (ledger_log ?w)) = (50, Inr state_locked_empty)"
    by (simp add: world_round_def)
  have ph: "phase state_locked_empty = phase_LOCKED" "tickets state_locked_empty = 0"
    by (simp_all add: state_locked_empty_def round_state_def)
  have n: "ledger_log ?w = []" "http_log ?w = []" "db_log ?w = []"
    by (simp_all add: world_round_def)
  from locked_zero_tickets_cancels [of manager_default ?w 50 state_locked_empty] g rd ph
  have res: "ledger_log (snd (snd (checkAndProcessGameState manager_default ?w))) = [GetPotState, EmergencyCancel]"
    "http_log (snd (snd (checkAndProcessGameState manager_default ?w))) = []"
    "db_log (snd (snd (checkAndProcessGameState manager_default ?w))) = []"
    by (simp_all add: n)
  from g rd ph res n show ?thesis by simp
qed

subsection \<open>The in-progress guard\<close>

lemma sched_step_inv:
  assumes "k \<le> 1 \<and> (isProcessing m \<longleftrightarrow> k = 1)" and "sched_step (k, m, w) ev = (k', m', w')"
  shows "k' \<le> 1 \<and> (isProcessing m' \<longleftrightarrow> k' = 1)"
proof (cases ev)
  case Fire
  with assms show ?thesis by (auto simp: tick_enter_def split: if_splits)
next
  case Settle
  show ?thesis
  proof (cases "k = 0")
    case True
    with assms Settle show ?thesis by auto
  next
    case False
    obtain r m2 w2 where body: "tick_try m w = (r, m2, w2)" by (cases "tick_try m w")
    from tick_settle_fields(4) [OF body] have "\<not> isProcessing (fst (snd (tick_settle m w)))" by simp
    with assms Settle False show ?thesis by (auto split: prod.splits)
  qed
qed

lemma sched_run_inv:
  "k \<le> 1 \<and> (isProcessing m \<longleftrightarrow> k = 1) \<Longrightarrow> sched_run evs (k, m, w) = (k', m', w') \<Longrightarrow>
     k' \<le> 1 \<and> (isProcessing m' \<longleftrightarrow> k' = 1)"
proof (induction evs arbitrary: k m w)
  case Nil
  then show ?case by (simp add: sched_run_def)
next
  case (Cons ev evs)
  obtain k1 m1 w1 where step: "sched_step (k, m, w) ev = (k1, m1, w1)"
    by (cases "sched_step (k, m, w) ev")
  from sched_step_inv [OF Cons.prems(1) step] have inv1: "k1 \<le> 1 \<and> (isProcessing m1 \<longleftrightarrow> k1 = 1)" .
  from Cons.prems(2) step have "sched_run evs (k1, m1, w1) = (k', m', w')"
    by (simp add: sched_run_def)
  from Cons.IH [OF inv1 this] show ?case .
qed

text \<open>
  C1. A tick that finds the guard set returns at once: the manager and the world are as
  they were, so nothing was read from or sent to the ledger. A tick that passes the guard
  sets it before its first awaited call, the handlers leave it set, and the tick clears
  it on every way out. For every sequence of timer firings and completions that starts
  with no tick in flight, at most one tick is in flight, the guard is set exactly while
  one is, and a firing in that time changes nothing.
\<close>

theorem single_flight_guard:
  "(isProcessing m \<longrightarrow> checkAndProcessGameState m w = (Inr (), m, w)) \<and>
   (\<not> isProcessing m \<longrightarrow> \<not> isProcessing (fst (snd (checkAndProcessGameState m w)))) \<and>
   (tick_enter m = Some m1 \<longrightarrow> isProcessing m1 \<and> isProcessing (fst (snd (tick_try m1 w))) \<and>
      checkAndProcessGameState m w = tick_settle m1 w) \<and>
   (\<not> isProcessing m \<longrightarrow> sched_run evs (0, m, w) = (k, m', w') \<longrightarrow>
      k \<le> 1 \<and> (isProcessing m' \<longleftrightarrow> k = 1)) \<and>
   (isProcessing m \<longrightarrow> sched_step (k0, m, w) Fire = (k0, m, w))"
proof (intro conjI impI)
  assume "isProcessing m"
  then show "checkAndProcessGameState m w = (Inr (), m, w)"
    by (simp add: checkAndProcessGameState_def tick_enter_def)
next
  assume g: "\<not> isProcessing m"
  obtain r m2 w2 where body: "tick_try (m\<lparr>isProcessing := True\<rparr>) w = (r, m2, w2)"
    by (cases "tick_try (m\<lparr>isProcessing := True\<rparr>) w")
  show "\<not> isProcessing (fst (snd (checkAndProcessGameState m w)))"
    unfolding tick_unguarded [OF g] using tick_settle_fields(4) [OF body] by simp
next
  assume e: "tick_enter m = Some m1"
  then have m1: "m1 = m\<lparr>isProcessing := True\<rparr>" "\<not> isProcessing m"
    by (auto simp: tick_enter_def split: if_splits)
  then show "isProcessing m1" by simp
  obtain r m2 w2 where body: "tick_try m1 w = (r, m2, w2)" by (cases "tick_try m1 w")
  from tick_try_calls(1) [OF body] m1 body show "isProcessing (fst (snd (tick_try m1 w)))" by simp
  from e show "checkAndProcessGameState m w = tick_settle m1 w"
    by (simp add: checkAndProcessGameState_def)
next
  assume "\<not> isProcessing m" and run: "sched_run evs (0, m, w) = (k, m', w')"
  then have "(0::nat) \<le> 1 \<and> (isProcessing m \<longleftrightarrow> (0::nat) = 1)" by simp
  from sched_run_inv [OF this run] show "k \<le> 1" "isProcessing m' \<longleftrightarrow> k = 1" by simp_all
next
  assume "isProcessing m"
  then show "sched_step (k0, m, w) Fire = (k0, m, w)" by (simp add: tick_enter_def)
qed

text \<open>
  An instance: the timer fires twice, the tick completes, the timer fires twice again. One
  lock call was made and one tick is in flight.
\<close>

theorem single_flight_guard_witness:
  "isProcessing manager_busy \<and>
   checkAndProcessGameState manager_busy (world_round state_betting 61000)
     = (Inr (), manager_busy, world_round state_betting 61000) \<and>
   \<not> isProcessing manager_default \<and>
   \<not> isProcessing (fst (snd (checkAndProcessGameState manager_default (world_round state_betting 61000)))) \<and>
   tick_enter manager_default = Some manager_busy \<and>
   isProcessing (fst (snd (tick_try manager_busy (world_round state_betting 61000)))) \<and>
   (\<exists>k m' w'. sched_run [Fire, Fire, Settle, Fire, Fire]
        (0, manager_default, world_round state_betting 61000) = (k, m', w') \<and>
      k \<le> 1 \<and> (isProcessing m' \<longleftrightarrow> k = 1) \<and> ledger_log w' = [GetPotState, LockGame]) \<and>
   sched_step (1, manager_busy, world_round state_betting 61000) Fire
     = (1, manager_busy, world_round state_betting 61000)"
proof -
  let ?w = "world_round state_betting 61000"
  have b: "isProcessing manager_busy" by (simp add: manager_busy_def)
  have g: "\<not> isProcessing manager_default" by (simp add: manager_default_def)
  have e: "tick_enter manager_default = Some manager_busy"
    by (simp add: tick_enter_def manager_busy_def manager_default_def)
  obtain k m' w' where run: "sched_run [Fire, Fire, Settle, Fire, Fire] (0, manager_default, ?w) = (k, m', w')"
    by (cases "sched_run [Fire, Fire, Settle, Fire, Fire] (0, manager_default, ?w)")
  have "ledger_log (snd (snd (sched_run [Fire, Fire, Settle, Fire, Fire] (0, manager_default, ?w))))
      = [GetPotState, LockGame]"
    by (simp add: sched_run_def tick_defs)
  with run have log: "ledger_log w' = [GetPotState, LockGame]" by simp
  note t1 = single_flight_guard [of manager_busy ?w manager_busy "[]" 1 manager_busy ?w 1]
  note t2 = single_flight_guard [of manager_default ?w manager_busy "[Fire, Fire, Settle, Fire, Fire]" k m' w' 0]
  from t1 b have 1: "checkAndProcessGameState manager_busy ?w = (Inr (), manager_busy, ?w)"
    "sched_step (1, manager_busy, ?w) Fire = (1, manager_busy, ?w)" by blast+
  from t2 g e run have 2: "\<not> isProcessing (fst (snd (checkAndProcessGameState manager_default ?w)))"
    "isProcessing (fst (snd (tick_try manager_busy ?w)))" "k \<le> 1" "isProcessing m' \<longleftrightarrow> k = 1"
    by blast+
  from b g e 1 2 run log show ?thesis by blast
qed

subsection \<open>Recording the result\<close>

text \<open>
  A tick that finds the round Complete reads the ledger state and does nothing else,
  whatever the world. \<open>finishGame\<close> writes the round's update and the beacon proof when
  the ledger confirms the finish call, and nothing when the ledger rejects it.
\<close>

lemma complete_tick_writes_nothing:
  assumes "\<not> isProcessing m" and "ledger_state w (length (ledger_log w)) = (took, Inr st)"
    and "phase st = phase_COMPLETE"
  shows "db_log (snd (snd (checkAndProcessGameState m w))) = db_log w"
    and "ledger_log (snd (snd (checkAndProcessGameState m w))) = ledger_log w @ [GetPotState]"
    and "http_log (snd (snd (checkAndProcessGameState m w))) = http_log w"
proof -
  let ?m1 = "m\<lparr>isProcessing := True\<rparr>"
  let ?w2 = "logger Debug ''Game state check''
               (w\<lparr>now := now w + int took, ledger_log := ledger_log w @ [GetPotState]\<rparr>)"
  from assms(2,3) have body: "tick_try ?m1 w =
      (Inr (), ?m1, logger Info ''Game in COMPLETE phase - waiting for transition to IDLE'' ?w2)"
    using tick_read [of w took st ?m1]
    by (simp add: Let_def handleCompletePhase_result phase_IDLE_def phase_BETTING_def
        phase_LOCKED_def phase_COMPLETE_def)
  show "db_log (snd (snd (checkAndProcessGameState m w))) = db_log w"
    "ledger_log (snd (snd (checkAndProcessGameState m w))) = ledger_log w @ [GetPotState]"
    "http_log (snd (snd (checkAndProcessGameState m w))) = http_log w"
    unfolding tick_unguarded [OF assms(1)]
    using tick_settle_fields(1,2,3) [OF body] by (simp_all add: logger_def)
qed

lemma finishGame_writes:
  "ledger_tx w (length (ledger_log w)) (FinishGame (blockHash eb)) = (took, Inr rc) \<Longrightarrow>
     \<exists>t. db_log (snd (finishGame st eb w)) =
       db_log w @ [final_update st eb rc (now w + int took), final_proof st eb t]"
  "ledger_tx w (length (ledger_log w)) (FinishGame (blockHash eb)) = (took, Inl e) \<Longrightarrow>
     db_log (snd (finishGame st eb w)) = db_log w"
proof -
  assume "ledger_tx w (length (ledger_log w)) (FinishGame (blockHash eb)) = (took, Inr rc)"
  then have "db_log (snd (finishGame st eb w)) =
         db_log w @ [final_update st eb rc (now w + int took),
           final_proof st eb (now w + int took + int (fst (db w (length (db_log w))
              (final_update st eb rc (now w + int took)))))]"
    by (auto simp: finishGame_def updateGameRound_def storeEosProof_def gateway_defs Let_def
          final_update_def final_proof_def split: prod.splits option.splits)
  then show "\<exists>t. db_log (snd (finishGame st eb w)) =
         db_log w @ [final_update st eb rc (now w + int took), final_proof st eb t]" ..
next
  assume "ledger_tx w (length (ledger_log w)) (FinishGame (blockHash eb)) = (took, Inl e)"
  then show "db_log (snd (finishGame st eb w)) = db_log w"
    by (simp add: finishGame_def gateway_defs)
qed

text \<open>
  The writes of \<open>finishGame\<close> are the writes of the Locked-phase tick: with tickets sold,
  a seed fetched and the finish call confirmed, the tick sends the round's update and the
  beacon proof, and calls \<open>finishGame\<close> once on the ledger.
\<close>

lemma locked_tick_writes_final_record:
  assumes g: "\<not> isProcessing m"
    and rd: "ledger_state w (length (ledger_log w)) = (took, Inr st)"
    and ph: "phase st = phase_LOCKED" and tk: "tickets st \<noteq> 0"
    and fb: "getFutureBlockHash None (eosService m)
               (logger Info ''Fetching EOS randomness''
                 (logger Info ''Game in LOCKED phase - fetching randomness''
                   (logger Debug ''Game state check''
                     (w\<lparr>now := now w + int took, ledger_log := ledger_log w @ [GetPotState]\<rparr>))))
             = (Inr eb, s', w3)"
    and ok: "ledger_tx w (Suc (length (ledger_log w))) (FinishGame (blockHash eb)) = (took', Inr rc)"
  shows "\<exists>t. db_log (snd (snd (checkAndProcessGameState m w))) =
           db_log w @ [final_update st eb rc (now w3 + int took'), final_proof st eb t]"
    and "ledger_log (snd (snd (checkAndProcessGameState m w))) =
           ledger_log w @ [GetPotState, FinishGame (blockHash eb)]"
proof -
  let ?m1 = "m\<lparr>isProcessing := True\<rparr>"
  let ?w2 = "logger Debug ''Game state check''
               (w\<lparr>now := now w + int took, ledger_log := ledger_log w @ [GetPotState]\<rparr>)"
  let ?w2' = "logger Info ''Fetching EOS randomness''
                (logger Info ''Game in LOCKED phase - fetching randomness'' ?w2)"
  let ?w4 = "logger Info ''EOS randomness fetched'' w3"
  from fb have fb1: "getFutureBlockHash None (eosService ?m1) ?w2' = (Inr eb, s', w3)" by simp
  note fr = beacon_step_fields [OF getFutureBlockHash_frame [OF fb]]
  have w4: "ledger_tx ?w4 = ledger_tx w" "ledger_log ?w4 = ledger_log w @ [GetPotState]"
    "db_log ?w4 = db_log w" "now ?w4 = now w3"
    using fr by (simp_all add: logger_def)
  obtain r4 w5 where fg: "finishGame st eb ?w4 = (r4, w5)" by (cases "finishGame st eb ?w4")
  have ok4: "ledger_tx ?w4 (length (ledger_log ?w4)) (FinishGame (blockHash eb)) = (took', Inr rc)"
    using ok by (simp add: w4)
  from finishGame_writes(1) [OF ok4, of st] fg obtain t where
    db5: "db_log w5 = db_log w @ [final_update st eb rc (now w3 + int took'), final_proof st eb t]"
    by (auto simp: w4)
  from finishGame_result [OF fg] have l5: "ledger_log w5 = ledger_log w @ [GetPotState, FinishGame (blockHash eb)]"
    by (simp add: w4)
  obtain r m' w' where hl: "handleLockedPhase st ?m1 ?w2 = (r, m', w')"
    by (cases "handleLockedPhase st ?m1 ?w2")
  with tk fb1 fg have w': "db_log w' = db_log w5" "ledger_log w' = ledger_log w5"
    by (auto simp: handleLockedPhase_def Let_def logger_def split: sum.splits)
  have body: "tick_try ?m1 w = (r, m', w')"
    using tick_read [OF rd, of ?m1] ph hl
    by (simp add: Let_def phase_IDLE_def phase_BETTING_def phase_LOCKED_def)
  have "db_log (snd (snd (checkAndProcessGameState m w))) =
           db_log w @ [final_update st eb rc (now w3 + int took'), final_proof st eb t]"
    unfolding tick_unguarded [OF g] using tick_settle_fields(3) [OF body] w' db5 by simp
  then show "\<exists>t. db_log (snd (snd (checkAndProcessGameState m w))) =
           db_log w @ [final_update st eb rc (now w3 + int took'), final_proof st eb t]" ..
  show "ledger_log (snd (snd (checkAndProcessGameState m w))) =
           ledger_log w @ [GetPotState, FinishGame (blockHash eb)]"
    unfolding tick_unguarded [OF g] using tick_settle_fields(1) [OF body] w' l5 by simp
qed

text \<open>
  C2. The claim: on the first tick that observes the round Complete, the orchestrator
  records the round's final totals and winner to persistence, and a second recording for
  the same round is a no-op that leaves exactly one record. The code at that input: the
  tick that finds round 7 Complete reads the ledger state and sends no write to the
  store, and two runs of the Complete-phase handler send none either. What the store
  receives for a finished round was sent one phase earlier, by the Locked-phase tick: the
  update of the round with the winner, and the beacon proof; neither carries the totals.
\<close>

theorem complete_tick_persists_nothing:
  "db_log (snd (snd (checkAndProcessGameState manager_default (world_round state_complete 90000)))) = [] \<and>
   ledger_log (snd (snd (checkAndProcessGameState manager_default (world_round state_complete 90000))))
     = [GetPotState] \<and>
   db_log (snd (snd (handleCompletePhase state_complete manager_default
      (snd (snd (handleCompletePhase state_complete manager_default (world_round state_complete 90000))))))) = [] \<and>
   db_log (snd (snd (checkAndProcessGameState manager_default (world_round state_locked 80000)))) =
     [final_update state_locked block_found receipt_ok 80450, final_proof state_locked block_found 80470]"
  by (simp add: tick_defs eval_defs final_update_def final_proof_def block_found_def lower_hex_id_def)

end
